theory Spec2Isabelle
  imports Complex_Main "HOL-Library.AList"
begin

section \<open>Python values used by \<open>novaguestclient/cli/utils.py\<close>\<close>

text \<open>
  Text is a \<^typ>\<open>string\<close>. A Python \<open>dict\<close> is an association list in insertion
  order whose keys are distinct: \<^const>\<open>map_of\<close> looks a key up and
  \<^const>\<open>AList.update\<close> is the assignment \<open>d[k] = v\<close> (an existing key keeps its
  place and takes the new value, a new key goes to the end).
  An exception is a value of \<open>pyexc\<close>; a function that can raise returns
  \<open>pyexc + 'a\<close>, with \<open>Inl\<close> the exception. \<open>ValueError\<close> and \<open>TypeError\<close>
  carry the message, \<open>KeyError\<close> the missing key and \<open>AttributeError\<close> the name of
  the missing attribute.
\<close>

type_synonym ('k, 'v) pydict = "('k \<times> 'v) list"

datatype pyexc =
    ValueError string
  | KeyError string
  | TypeError string
  | AttributeError string

subsection \<open>Methods of \<open>str\<close>\<close>

text \<open>\<open>s.split(c)\<close> for a one-character separator: cut at every occurrence.\<close>

fun str_split :: "char \<Rightarrow> string \<Rightarrow> string list" where
  "str_split c [] = [[]]"
| "str_split c (x # xs) =
     (if x = c then [] # str_split c xs
      else (case str_split c xs of
              [] \<Rightarrow> [[x]]
            | w # ws \<Rightarrow> (x # w) # ws))"

text \<open>\<open>s.split(c, 1)\<close>: cut at the first occurrence only.\<close>

fun str_split1 :: "char \<Rightarrow> string \<Rightarrow> string list" where
  "str_split1 c [] = [[]]"
| "str_split1 c (x # xs) =
     (if x = c then [[], xs]
      else (case str_split1 c xs of
              [] \<Rightarrow> [[x]]
            | w # ws \<Rightarrow> (x # w) # ws))"

text \<open>\<open>s.strip(chars)\<close>: drop the characters of \<open>chars\<close> from both ends.\<close>

definition str_strip :: "string \<Rightarrow> string \<Rightarrow> string" where
  "str_strip chars s =
     rev (dropWhile (\<lambda>c. c \<in> set chars) (rev (dropWhile (\<lambda>c. c \<in> set chars) s)))"

text \<open>\<open>sep.join(xs)\<close>.\<close>

fun str_join :: "string \<Rightarrow> string list \<Rightarrow> string" where
  "str_join sep [] = []"
| "str_join sep [x] = x"
| "str_join sep (x # y # ys) = x @ sep @ str_join sep (y # ys)"

text \<open>
  \<open>s.replace(old, new)\<close>: every occurrence of \<open>old\<close>, from the left and without
  overlap; an empty \<open>old\<close> matches before every character and at the end.
\<close>

function str_replace :: "string \<Rightarrow> string \<Rightarrow> string \<Rightarrow> string" where
  "str_replace old new s =
     (if old = [] then new @ concat (map (\<lambda>c. c # new) s)
      else if s = [] then []
      else if take (length old) s = old
           then new @ str_replace old new (drop (length old) s)
           else hd s # str_replace old new (tl s))"
  by pat_completeness auto
termination
  by (relation "measure (\<lambda>(old, new, s). length s)") (auto simp: neq_Nil_conv)

declare str_replace.simps [simp del]

text \<open>\<open>s.lower()\<close> on ASCII text: the letters A to Z become a to z.\<close>

definition char_lower :: "char \<Rightarrow> char" where
  "char_lower c =
     (case map_of (zip ''ABCDEFGHIJKLMNOPQRSTUVWXYZ'' ''abcdefghijklmnopqrstuvwxyz'') c of
        None \<Rightarrow> c
      | Some l \<Rightarrow> l)"

definition str_lower :: "string \<Rightarrow> string" where
  "str_lower s = map char_lower s"

text \<open>The single quote, and the quote characters of \<open>strip('\'"')\<close>.\<close>

definition sq :: string where
  "sq = [CHR 0x27]"

definition quote_chars :: string where
  "quote_chars = [CHR 0x27, CHR 0x22]"

text \<open>
  Truth value of \<open>None\<close>, a \<open>str\<close> or a \<open>list\<close>: \<open>None\<close> and the empty
  sequence are false.
\<close>

definition truthy :: "'a list option \<Rightarrow> bool" where
  "truthy v = (case v of None \<Rightarrow> False | Some xs \<Rightarrow> xs \<noteq> [])"

text \<open>\<open>d[k]\<close> and \<open>d.get(k, default)\<close>.\<close>

definition dict_getitem :: "(string, 'v) pydict \<Rightarrow> string \<Rightarrow> pyexc + 'v" where
  "dict_getitem d k = (case map_of d k of None \<Rightarrow> Inl (KeyError k) | Some v \<Rightarrow> Inr v)"

definition dict_get :: "(string, 'v) pydict \<Rightarrow> string \<Rightarrow> 'v \<Rightarrow> 'v" where
  "dict_get d k dflt = (case map_of d k of None \<Rightarrow> dflt | Some v \<Rightarrow> v)"

section \<open>Storage mappings\<close>

subsection \<open>The converters of \<open>--disk-storage-mapping\<close> and \<open>--storage-backend-mapping\<close>\<close>

text \<open>
  \<open>a, b = xs\<close> for a list of strings: \<open>ValueError\<close> unless \<open>xs\<close> has exactly two
  elements (the message is the interpreter's).
\<close>

definition unpack2 :: "string list \<Rightarrow> pyexc + (string \<times> string)" where
  "unpack2 xs =
     (case xs of
        [a, b] \<Rightarrow> Inr (a, b)
      | _ \<Rightarrow>
          if length xs < 2
          then Inl (ValueError (''not enough values to unpack (expected 2, got ''
                                  @ (if xs = [] then ''0'' else ''1'') @ '')''))
          else Inl (ValueError ''too many values to unpack (expected 2)''))"

definition split_disk_arg :: "string \<Rightarrow> pyexc + (string, string) pydict" where
  "split_disk_arg arg =
     (case unpack2 (str_split (CHR ''='') arg) of
        Inl e \<Rightarrow> Inl e
      | Inr (disk_id, dest) \<Rightarrow>
          Inr [(''disk_id'', str_strip quote_chars disk_id),
               (''destination'', str_strip quote_chars dest)])"

definition split_backend_arg :: "string \<Rightarrow> pyexc + (string, string) pydict" where
  "split_backend_arg arg =
     (case unpack2 (str_split (CHR ''='') arg) of
        Inl e \<Rightarrow> Inl e
      | Inr (src, dest) \<Rightarrow>
          Inr [(''source'', str_strip quote_chars src),
               (''destination'', str_strip quote_chars dest)])"

subsection \<open>\<open>format_mapping\<close>\<close>

text \<open>\<open>"'%s'='%s'" % (k, v)\<close> for strings \<open>k\<close> and \<open>v\<close>.\<close>

definition mapping_token :: "string \<times> string \<Rightarrow> string" where
  "mapping_token kv = sq @ fst kv @ sq @ ''='' @ sq @ snd kv @ sq"

definition format_mapping :: "(string, string) pydict \<Rightarrow> string" where
  "format_mapping mapping = str_join '', '' (map mapping_token mapping)"

subsection \<open>\<open>get_storage_mappings_dict_from_args\<close>\<close>

text \<open>
  The parsed arguments, with the three attributes the storage-mapping flags fill in:
  each is \<open>None\<close> when its flag was not given. An entry of the two lists is the dict
  a converter returned.
\<close>

record storage_args =
  default_storage_backend :: "string option"
  disk_storage_mappings :: "(string, string) pydict list option"
  storage_backend_mappings :: "(string, string) pydict list option"

text \<open>
  A value of the \<open>storage_mappings\<close> dict: \<open>None\<close>, a string (the default backend)
  or a list of dicts (the disk and backend mappings).
\<close>

datatype smval = SNone | SStr string | SList "(string, string) pydict list"

definition get_storage_mappings_dict_from_args :: "storage_args \<Rightarrow> (string, smval) pydict" where
  "get_storage_mappings_dict_from_args args =
     (let storage_mappings = [];
          storage_mappings =
            (case default_storage_backend args of
               Some b \<Rightarrow>
                 if truthy (Some b) then AList.update ''default'' (SStr b) storage_mappings
                 else storage_mappings
             | None \<Rightarrow> storage_mappings);
          storage_mappings =
            (case disk_storage_mappings args of
               Some ds \<Rightarrow>
                 if truthy (Some ds) then AList.update ''disk_mappings'' (SList ds) storage_mappings
                 else storage_mappings
             | None \<Rightarrow> storage_mappings);
          storage_mappings =
            (case storage_backend_mappings args of
               Some bs \<Rightarrow>
                 if truthy (Some bs) then AList.update ''backend_mappings'' (SList bs) storage_mappings
                 else storage_mappings
             | None \<Rightarrow> storage_mappings)
      in storage_mappings)"

subsection \<open>\<open>parse_storage_mappings\<close>\<close>

text \<open>
  The comprehension \<open>{mapping[key]: mapping['destination'] for mapping in xs}\<close> over a
  list of dicts, with the dict built so far as accumulator: the key is read before the
  value, a missing one raises \<open>KeyError\<close>, and a key met again takes the later value.
\<close>

fun mappings_dict ::
  "string \<Rightarrow> (string, string) pydict list \<Rightarrow> (string, string) pydict \<Rightarrow> pyexc + (string, string) pydict"
where
  "mappings_dict key [] acc = Inr acc"
| "mappings_dict key (mapping # rest) acc =
     (case dict_getitem mapping key of
        Inl e \<Rightarrow> Inl e
      | Inr k \<Rightarrow>
          (case dict_getitem mapping ''destination'' of
             Inl e \<Rightarrow> Inl e
           | Inr v \<Rightarrow> mappings_dict key rest (AList.update k v acc)))"

text \<open>
  The same comprehension over any value of the dict: \<open>None\<close> cannot be iterated, and
  the elements of a non-empty string are strings, which \<open>mapping[key]\<close> cannot index.
\<close>

definition mappings_comprehension :: "string \<Rightarrow> smval \<Rightarrow> pyexc + (string, string) pydict" where
  "mappings_comprehension key v =
     (case v of
        SList xs \<Rightarrow> mappings_dict key xs []
      | SStr t \<Rightarrow>
          if t = [] then Inr []
          else Inl (TypeError (''string indices must be integers, not '' @ sq @ ''str'' @ sq))
      | SNone \<Rightarrow> Inl (TypeError (sq @ ''NoneType'' @ sq @ '' object is not iterable'')))"

definition parse_storage_mappings ::
  "(string, smval) pydict option \<Rightarrow>
   pyexc + (smval \<times> (string, string) pydict \<times> (string, string) pydict)"
where
  "parse_storage_mappings storage_mappings =
     (case storage_mappings of
        None \<Rightarrow> Inr (SNone, [], [])
      | Some sm \<Rightarrow>
          (case mappings_comprehension ''source'' (dict_get sm ''backend_mappings'' (SList [])) of
             Inl e \<Rightarrow> Inl e
           | Inr backend_mappings \<Rightarrow>
               (case mappings_comprehension ''disk_id'' (dict_get sm ''disk_mappings'' (SList [])) of
                  Inl e \<Rightarrow> Inl e
                | Inr disk_mappings \<Rightarrow>
                    Inr (dict_get sm ''default'' SNone, backend_mappings, disk_mappings))))"

section \<open>\<open>format_json_for_object_property\<close>\<close>

text \<open>
  The API objects are values of a type \<open>'o\<close>. What the function asks of them is given by
  parameters: \<open>isinstance_dict p\<close> is \<open>isinstance(p, dict)\<close>; \<open>to_dict p\<close> is \<open>None\<close>
  when \<open>p\<close> has no attribute \<open>to_dict\<close> and \<open>Some d\<close> when \<open>p.to_dict()\<close> returns \<open>d\<close>;
  \<open>json_dumps p n\<close> is \<open>json.dumps(p, indent=n)\<close>, the text or the exception the
  serializer raises. An object \<open>obj\<close> maps an attribute name to its value: no entry when
  the attribute is missing, \<open>Some None\<close> when it is \<open>None\<close>.
\<close>

definition format_json_for_object_property ::
  "('o \<Rightarrow> bool) \<Rightarrow> ('o \<Rightarrow> 'o option) \<Rightarrow> ('o \<Rightarrow> nat \<Rightarrow> pyexc + string) \<Rightarrow>
   (string \<rightharpoonup> 'o option) \<Rightarrow> string \<Rightarrow> pyexc + string"
where
  "format_json_for_object_property isinstance_dict to_dict json_dumps obj prop_name =
     (let prop = (case obj prop_name of None \<Rightarrow> None | Some v \<Rightarrow> v)
      in case prop of
           None \<Rightarrow> Inr ''{}''
         | Some p \<Rightarrow>
             (let p = (if \<not> isinstance_dict p
                       then (case to_dict p of Some d \<Rightarrow> d | None \<Rightarrow> p)
                       else p)
              in json_dumps p 2))"

section \<open>\<open>validate_uuid_string\<close>\<close>

subsection \<open>The standard library's \<open>uuid.UUID\<close>\<close>

text \<open>
  The constructor \<open>UUID(hex, version=version)\<close> of CPython's \<open>uuid\<close> module, for a string
  \<open>hex\<close>. The built-in \<open>int(text, 16)\<close> is the parameter \<open>int16\<close>: the number, or the
  message of the \<open>ValueError\<close> it raises. A \<open>UUID\<close> object is its field \<open>int\<close>.
\<close>

definition uuid_set_version :: "int \<Rightarrow> int \<Rightarrow> int" where
  "uuid_set_version i version =
     (let i = and i (not (push_bit 48 0xc000));
          i = or i (push_bit 48 0x8000);
          i = and i (not (push_bit 64 0xf000));
          i = or i (push_bit 76 version)
      in i)"

definition uuid_UUID :: "(string \<Rightarrow> string + int) \<Rightarrow> string \<Rightarrow> int option \<Rightarrow> pyexc + int" where
  "uuid_UUID int16 hex version =
     (let hex = str_replace ''uuid:'' [] (str_replace ''urn:'' [] hex);
          hex = str_replace ''-'' [] (str_strip ''{}'' hex)
      in if length hex \<noteq> 32 then Inl (ValueError ''badly formed hexadecimal UUID string'')
         else
           (case int16 hex of
              Inl msg \<Rightarrow> Inl (ValueError msg)
            | Inr i \<Rightarrow>
                if \<not> (0 \<le> i \<and> i < 2 ^ 128)
                then Inl (ValueError ''int is out of range (need a 128-bit value)'')
                else
                  (case version of
                     None \<Rightarrow> Inr i
                   | Some v \<Rightarrow>
                       if \<not> (1 \<le> v \<and> v \<le> 5) then Inl (ValueError ''illegal version number'')
                       else Inr (uuid_set_version i v))))"

text \<open>The property \<open>version\<close> of a UUID whose variant is RFC 4122: \<open>(int >> 76) & 0xf\<close>.\<close>

definition UUID_version :: "int \<Rightarrow> int" where
  "UUID_version i = and (drop_bit 76 i) 0xf"

text \<open>
  \<open>str(u)\<close>: \<open>'%032x' % u.int\<close>, cut into groups of 8, 4, 4, 4 and 12 digits joined
  by hyphens.
\<close>

definition hex_char :: "nat \<Rightarrow> char" where
  "hex_char d = ''0123456789abcdef'' ! (d mod 16)"

fun hex_digits :: "nat \<Rightarrow> string" where
  "hex_digits n = (if n < 16 then [hex_char n] else hex_digits (n div 16) @ [hex_char (n mod 16)])"

declare hex_digits.simps [simp del]

definition format_032x :: "int \<Rightarrow> string" where
  "format_032x i =
     (if i < 0
      then (let ds = hex_digits (nat (- i)) in ''-'' @ replicate (31 - length ds) (CHR ''0'') @ ds)
      else (let ds = hex_digits (nat i) in replicate (32 - length ds) (CHR ''0'') @ ds))"

definition uuid_str :: "int \<Rightarrow> string" where
  "uuid_str i =
     (let hex = format_032x i
      in take 8 hex @ ''-'' @ take 4 (drop 8 hex) @ ''-'' @ take 4 (drop 12 hex) @ ''-''
         @ take 4 (drop 16 hex) @ ''-'' @ drop 20 hex)"

text \<open>
  \<open>uuid4()\<close> is \<open>UUID(bytes=os.urandom(16), version=4)\<close>; \<open>r\<close> is the number the 16
  random bytes denote, \<open>0 \<le> r < 2 ^ 128\<close>.
\<close>

definition uuid4 :: "int \<Rightarrow> int" where
  "uuid4 r = uuid_set_version r 4"

subsection \<open>The validator\<close>

text \<open>
  \<open>uuid_obj\<close> is the text \<open>str(uuid_obj)\<close>. Only a \<open>ValueError\<close> is caught.
\<close>

definition validate_uuid_string ::
  "(string \<Rightarrow> string + int) \<Rightarrow> string \<Rightarrow> int option \<Rightarrow> pyexc + bool"
where
  "validate_uuid_string int16 uuid_obj uuid_version =
     (let uuid_string = str_lower uuid_obj
      in case uuid_UUID int16 uuid_string uuid_version of
           Inr u \<Rightarrow> Inr True
         | Inl (ValueError msg) \<Rightarrow> Inr False
         | Inl e \<Rightarrow> Inl e)"

subsection \<open>Hexadecimal text\<close>

text \<open>
  The number a non-empty string of hexadecimal digits denotes, and the strings of the
  form 8-4-4-4-12 that \<open>str\<close> of a UUID produces (here with digits of either case).
\<close>

definition hex_digit_value :: "char \<Rightarrow> nat option" where
  "hex_digit_value c =
     (case map_of (zip ''0123456789abcdef'' [0, 1, 2, 3, 4, 5, 6, 7, 8, 9, 10, 11, 12, 13, 14, 15]) c of
        Some d \<Rightarrow> Some d
      | None \<Rightarrow> map_of (zip ''ABCDEF'' [10, 11, 12, 13, 14, 15]) c)"

fun hex_value_from :: "nat \<Rightarrow> string \<Rightarrow> nat option" where
  "hex_value_from acc [] = Some acc"
| "hex_value_from acc (c # cs) =
     (case hex_digit_value c of
        None \<Rightarrow> None
      | Some d \<Rightarrow> hex_value_from (16 * acc + d) cs)"

definition plain_hex :: "string \<Rightarrow> int option" where
  "plain_hex s = (if s = [] then None else map_option int (hex_value_from 0 s))"

definition is_hex :: "string \<Rightarrow> bool" where
  "is_hex s = list_all (\<lambda>c. c \<in> set ''0123456789abcdefABCDEF'') s"

definition canonical_uuid_text :: "string \<Rightarrow> bool" where
  "canonical_uuid_text s =
     (length s = 36 \<and> s ! 8 = CHR ''-'' \<and> s ! 13 = CHR ''-'' \<and> s ! 18 = CHR ''-'' \<and> s ! 23 = CHR ''-''
      \<and> is_hex (take 8 s) \<and> is_hex (take 4 (drop 9 s)) \<and> is_hex (take 4 (drop 14 s))
      \<and> is_hex (take 4 (drop 19 s)) \<and> is_hex (drop 24 s))"

text \<open>
  What is used of the built-in \<open>int(text, 16)\<close>: it reads a non-empty string of
  hexadecimal digits as the number the digits denote.
\<close>

definition int16_reads_hex :: "(string \<Rightarrow> string + int) \<Rightarrow> bool" where
  "int16_reads_hex int16 = (\<forall>s v. plain_hex s = Some v \<longrightarrow> int16 s = Inr v)"

section \<open>\<open>get_option_value_from_args\<close>\<close>

text \<open>
  A value \<open>json.loads\<close> returns. A float is a rational number, an infinity or a NaN.
\<close>

datatype pyfloat = FloatNum rat | FloatInf | FloatNegInf | FloatNaN

datatype jval =
    JNull
  | JBool bool
  | JInt int
  | JFloat pyfloat
  | JStr string
  | JList "jval list"
  | JDict "(string \<times> jval) list"

text \<open>The truth value \<open>not value\<close> tests.\<close>

fun jval_truthy :: "jval \<Rightarrow> bool" where
  "jval_truthy JNull = False"
| "jval_truthy (JBool b) = b"
| "jval_truthy (JInt i) = (i \<noteq> 0)"
| "jval_truthy (JFloat f) = (f \<noteq> FloatNum 0)"
| "jval_truthy (JStr s) = (s \<noteq> [])"
| "jval_truthy (JList xs) = (xs \<noteq> [])"
| "jval_truthy (JDict kvs) = (kvs \<noteq> [])"

text \<open>
  \<open>args\<close> maps an attribute name to its value; \<open>getattr\<close> raises \<open>AttributeError\<close>
  where it has no entry. As \<open>add_args_for_json_option_to_parser\<close> registers them, the
  attribute of \<open>--option-name\<close> is a string or \<open>None\<close>, and that of
  \<open>--option-name-file\<close> an open text file or \<open>None\<close>: a file is the text its \<open>read()\<close>
  returns, and it is true whatever it holds. \<open>json_loads\<close> is \<open>json.loads\<close>: the
  value, or the message of the \<open>ValueError\<close> it raises.
\<close>

definition get_option_value_from_args ::
  "(string \<Rightarrow> string + jval) \<Rightarrow> (string \<rightharpoonup> string option) \<Rightarrow> string \<Rightarrow> bool \<Rightarrow> pyexc + jval"
where
  "get_option_value_from_args json_loads args option_name error_on_no_value =
     (let option_name = str_replace ''-'' ''_'' option_name;
          option_label_name = str_replace ''_'' '' '' option_name;
          option_file_name = option_name @ ''_file'';
          option_arg_name = ''--'' @ str_replace ''_'' ''-'' option_name
      in case args option_name of
           None \<Rightarrow> Inl (AttributeError option_name)
         | Some raw_arg \<Rightarrow>
             (case args option_file_name of
                None \<Rightarrow> Inl (AttributeError option_file_name)
              | Some file_arg \<Rightarrow>
                  (let raw_value =
                         (if truthy raw_arg then raw_arg
                          else if file_arg \<noteq> None then file_arg
                          else None);
                       parsed =
                         (case raw_value of
                            None \<Rightarrow> Inr JNull
                          | Some text \<Rightarrow>
                              if text = [] then Inr JNull
                              else
                                (case json_loads text of
                                   Inr v \<Rightarrow> Inr v
                                 | Inl ex \<Rightarrow>
                                     Inl (ValueError (''Error while parsing '' @ option_label_name
                                                       @ '' JSON: '' @ ex))))
                   in case parsed of
                        Inl e \<Rightarrow> Inl e
                      | Inr val \<Rightarrow>
                          if \<not> jval_truthy val \<and> error_on_no_value
                          then Inl (ValueError (''No '' @ sq @ option_arg_name @ ''[-file]'' @ sq
                                                 @ '' parameter was provided.''))
                          else Inr val)))"

section \<open>\<open>compose_user_scripts\<close>\<close>

text \<open>
  The file system maps the path of a regular file to its text: \<open>os.path.isfile\<close> holds
  where it has an entry, and \<open>open(path).read()\<close> returns the text. \<open>os_list\<close> is
  \<open>constants.OS_LIST\<close>. The two loops carry the dict they fill.
\<close>

record user_scripts =
  scripts_global :: "(string, string) pydict"
  scripts_instances :: "(string, string) pydict"

fun global_loop ::
  "string list \<Rightarrow> (string \<rightharpoonup> string) \<Rightarrow> (string, string) pydict \<Rightarrow> string list \<Rightarrow>
   pyexc + (string, string) pydict"
where
  "global_loop os_list fs ret_global [] = Inr ret_global"
| "global_loop os_list fs ret_global (glb # rest) =
     (let split = str_split1 (CHR ''='') glb
      in if length split \<noteq> 2 then global_loop os_list fs ret_global rest
         else if split ! 0 \<notin> set os_list
         then Inl (ValueError (''Invalid OS '' @ split ! 0 @ ''. Available options are: ''
                                @ str_join '', '' os_list))
         else
           (case fs (split ! 1) of
              None \<Rightarrow> Inl (ValueError (''Could not find '' @ split ! 1))
            | Some script \<Rightarrow>
                global_loop os_list fs (AList.update (split ! 0) script ret_global) rest))"

fun instance_loop ::
  "(string \<rightharpoonup> string) \<Rightarrow> (string, string) pydict \<Rightarrow> string list \<Rightarrow> pyexc + (string, string) pydict"
where
  "instance_loop fs ret_instances [] = Inr ret_instances"
| "instance_loop fs ret_instances (inst # rest) =
     (let split = str_split1 (CHR ''='') inst
      in if length split \<noteq> 2 then instance_loop fs ret_instances rest
         else
           (case fs (split ! 1) of
              None \<Rightarrow> Inl (ValueError (''Could not find '' @ split ! 1))
            | Some script \<Rightarrow>
                instance_loop fs (AList.update (split ! 0) script ret_instances) rest))"

definition compose_user_scripts ::
  "string list \<Rightarrow> (string \<rightharpoonup> string) \<Rightarrow> string list option \<Rightarrow> string list option \<Rightarrow>
   pyexc + user_scripts"
where
  "compose_user_scripts os_list fs global_scripts instance_scripts =
     (let global_scripts = (if truthy global_scripts then the global_scripts else []);
          instance_scripts = (if truthy instance_scripts then the instance_scripts else [])
      in case global_loop os_list fs [] global_scripts of
           Inl e \<Rightarrow> Inl e
         | Inr g \<Rightarrow>
             (case instance_loop fs [] instance_scripts of
                Inl e \<Rightarrow> Inl e
              | Inr i \<Rightarrow> Inr \<lparr>scripts_global = g, scripts_instances = i\<rparr>))"

section \<open>Notions used to state the properties\<close>

text \<open>
  The list an attribute holds, empty when the attribute is \<open>None\<close>; the entries that have
  the key \<open>key\<close> and the key \<open>destination\<close>, as the converters build them; and the pair
  (key's value, destination) of each entry of a list.
\<close>

definition list_or_empty :: "'a list option \<Rightarrow> 'a list" where
  "list_or_empty v = (case v of None \<Rightarrow> [] | Some xs \<Rightarrow> xs)"

definition well_formed_entries :: "string \<Rightarrow> (string, string) pydict list \<Rightarrow> bool" where
  "well_formed_entries key ms =
     list_all (\<lambda>m. map_of m key \<noteq> None \<and> map_of m ''destination'' \<noteq> None) ms"

definition entry_pairs :: "string \<Rightarrow> (string, string) pydict list \<Rightarrow> (string \<times> string) list" where
  "entry_pairs key ms = map (\<lambda>m. (the (map_of m key), the (map_of m ''destination''))) ms"

text \<open>
  The two sides of a token \<open>key=path\<close>, cut at its first \<open>=\<close>, and the pairs (key, text
  of the file at path) of the tokens of a list that have a \<open>=\<close>.
\<close>

definition token_key :: "string \<Rightarrow> string" where
  "token_key t = takeWhile (\<lambda>c. c \<noteq> CHR ''='') t"

definition token_path :: "string \<Rightarrow> string" where
  "token_path t = drop 1 (dropWhile (\<lambda>c. c \<noteq> CHR ''='') t)"

definition script_pairs :: "(string \<rightharpoonup> string) \<Rightarrow> string list \<Rightarrow> (string \<times> string) list" where
  "script_pairs fs toks =
     map (\<lambda>t. (token_key t, the (fs (token_path t)))) (filter (\<lambda>t. CHR ''='' \<in> set t) toks)"

section \<open>Properties of the string methods\<close>

lemma str_split_no_sep: "c \<notin> set s \<Longrightarrow> str_split c s = [s]"
  by (induction s) auto

lemma str_split_append: "c \<notin> set l \<Longrightarrow> str_split c (l @ c # r) = l # str_split c r"
  by (induction l) auto

lemma str_split_length: "length (str_split c s) = Suc (count_list s c)"
  by (induction s) (auto split: list.splits)

lemma str_split1_no_sep: "c \<notin> set s \<Longrightarrow> str_split1 c s = [s]"
  by (induction s) auto

lemma str_split1_append: "c \<notin> set l \<Longrightarrow> str_split1 c (l @ c # r) = [l, r]"
  by (induction l) auto

lemma unpack2_length: "length xs \<noteq> 2 \<Longrightarrow> \<exists>msg. unpack2 xs = Inl (ValueError msg)"
  by (auto simp: unpack2_def split: list.splits)

lemma unpack2_two: "length xs = 2 \<Longrightarrow> \<exists>a b. unpack2 xs = Inr (a, b)"
  by (auto simp: unpack2_def split: list.splits)

lemma str_strip_decomp:
  "\<exists>p q. s = p @ str_strip cs s @ q \<and> set p \<subseteq> set cs \<and> set q \<subseteq> set cs"
proof -
  let ?P = "\<lambda>c. c \<in> set cs"
  let ?s1 = "dropWhile ?P s"
  let ?q = "rev (takeWhile ?P (rev ?s1))"
  have "rev (takeWhile ?P (rev ?s1) @ dropWhile ?P (rev ?s1)) = rev (rev ?s1)"
    by (simp only: takeWhile_dropWhile_id)
  then have s1: "str_strip cs s @ ?q = ?s1"
    by (simp only: rev_append rev_rev_ident str_strip_def)
  have "takeWhile ?P s @ ?s1 = s" by (rule takeWhile_dropWhile_id)
  with s1 have "s = takeWhile ?P s @ str_strip cs s @ ?q" by (simp only:)
  moreover have "set (takeWhile ?P s) \<subseteq> set cs" by (auto dest: set_takeWhileD)
  moreover have "set ?q \<subseteq> set cs" by (auto dest: set_takeWhileD)
  ultimately show ?thesis by blast
qed

lemma str_strip_ends:
  assumes "str_strip cs s \<noteq> []"
  shows "hd (str_strip cs s) \<notin> set cs \<and> last (str_strip cs s) \<notin> set cs"
proof -
  let ?P = "\<lambda>c. c \<in> set cs"
  let ?s1 = "dropWhile ?P s"
  let ?t = "dropWhile ?P (rev ?s1)"
  from assms have t: "?t \<noteq> []" by (simp add: str_strip_def)
  then have "\<not> ?P (hd ?t)" by (rule hd_dropWhile)
  then have l: "last (str_strip cs s) \<notin> set cs" using t by (simp add: str_strip_def last_rev)
  have s1: "?s1 \<noteq> []"
  proof
    assume "?s1 = []"
    then have "?t = []" by (simp only: rev.simps dropWhile.simps)
    with t show False by blast
  qed
  then have h1: "\<not> ?P (hd ?s1)" by (rule hd_dropWhile)
  have "rev (takeWhile ?P (rev ?s1) @ ?t) = rev (rev ?s1)"
    by (simp only: takeWhile_dropWhile_id)
  then have "str_strip cs s @ rev (takeWhile ?P (rev ?s1)) = ?s1"
    by (simp only: rev_append rev_rev_ident str_strip_def)
  then have "hd ?s1 = hd (str_strip cs s @ rev (takeWhile ?P (rev ?s1)))" by (simp only:)
  with assms have "hd ?s1 = hd (str_strip cs s)" by (simp add: hd_append2)
  with h1 l show ?thesis by simp
qed

lemma str_strip_id: "set s \<inter> set cs = {} \<Longrightarrow> str_strip cs s = s"
proof -
  assume a: "set s \<inter> set cs = {}"
  have 1: "dropWhile (\<lambda>c. c \<in> set cs) s = s" using a by (cases s) auto
  have 2: "dropWhile (\<lambda>c. c \<in> set cs) (rev s) = rev s"
    using a by (cases "rev s") (auto simp: disjoint_iff)
  show ?thesis by (simp add: str_strip_def 1 2)
qed

lemma str_replace_Nil: "old \<noteq> [] \<Longrightarrow> str_replace old new [] = []"
  by (simp add: str_replace.simps)

lemma str_replace_match:
  "old \<noteq> [] \<Longrightarrow> take (length old) (x # xs) = old \<Longrightarrow>
   str_replace old new (x # xs) = new @ str_replace old new (drop (length old) (x # xs))"
  by (subst str_replace.simps) simp

lemma str_replace_no_match:
  "old \<noteq> [] \<Longrightarrow> take (length old) (x # xs) \<noteq> old \<Longrightarrow>
   str_replace old new (x # xs) = x # str_replace old new xs"
  by (subst str_replace.simps) simp

lemma str_replace_char:
  "str_replace [c] new s = concat (map (\<lambda>x. if x = c then new else [x]) s)"
  by (induction s) (simp_all add: str_replace_Nil str_replace_match str_replace_no_match)

lemma str_replace_absent:
  "old \<noteq> [] \<Longrightarrow> \<not> set old \<subseteq> set s \<Longrightarrow> str_replace old new s = s"
proof (induction s)
  case Nil
  then show ?case by (simp add: str_replace_Nil)
next
  case (Cons x xs)
  from Cons.prems(2) have "take (length old) (x # xs) \<noteq> old"
    by (metis set_take_subset)
  moreover from Cons.prems(2) have "\<not> set old \<subseteq> set xs" by auto
  ultimately show ?case using Cons.IH Cons.prems(1) by (simp add: str_replace_no_match)
qed

section \<open>The mapping converters (claim C2)\<close>

text \<open>
  C2, as the code has it. A token with exactly one \<open>=\<close>, \<open>l=r\<close>, is converted to the dict
  \<open>{disk_id: l', destination: r'}\<close> (for the backend flag \<open>{source: l', destination: r'}\<close>),
  where \<open>l'\<close> and \<open>r'\<close> are \<open>l\<close> and \<open>r\<close> without the single and double quotes at their
  two ends. A token in which the number of \<open>=\<close> is not one (none, or two and more) makes
  the converter raise \<open>ValueError\<close>, the failure of a conversion that the argument parser
  reports as a usage error; a token in which it is one is always converted. Stripping
  removes quote characters only, and from the two ends only, until a character that is no
  quote.
\<close>

theorem split_mapping_arg_one_separator:
  "(CHR ''='' \<notin> set l \<and> CHR ''='' \<notin> set r \<longrightarrow>
      split_disk_arg (l @ CHR ''='' # r) =
        Inr [(''disk_id'', str_strip quote_chars l), (''destination'', str_strip quote_chars r)] \<and>
      split_backend_arg (l @ CHR ''='' # r) =
        Inr [(''source'', str_strip quote_chars l), (''destination'', str_strip quote_chars r)])
   \<and> (count_list arg (CHR ''='') \<noteq> 1 \<longrightarrow>
        (\<exists>msg. split_disk_arg arg = Inl (ValueError msg)) \<and>
        (\<exists>msg. split_backend_arg arg = Inl (ValueError msg)))
   \<and> (count_list arg (CHR ''='') = 1 \<longrightarrow>
        (\<exists>m. split_disk_arg arg = Inr m) \<and> (\<exists>m. split_backend_arg arg = Inr m))
   \<and> (\<exists>p q. s = p @ str_strip quote_chars s @ q \<and>
          set p \<subseteq> {CHR 0x27, CHR 0x22} \<and> set q \<subseteq> {CHR 0x27, CHR 0x22})
   \<and> (str_strip quote_chars s = [] \<or>
        (hd (str_strip quote_chars s) \<notin> {CHR 0x27, CHR 0x22} \<and>
         last (str_strip quote_chars s) \<notin> {CHR 0x27, CHR 0x22}))"
proof (intro conjI impI)
  assume a: "CHR ''='' \<notin> set l \<and> CHR ''='' \<notin> set r"
  then have sp: "str_split (CHR ''='') (l @ CHR ''='' # r) = [l, r]"
    by (simp add: str_split_append str_split_no_sep)
  show "split_disk_arg (l @ CHR ''='' # r) =
        Inr [(''disk_id'', str_strip quote_chars l), (''destination'', str_strip quote_chars r)]"
    by (simp add: split_disk_arg_def sp unpack2_def)
  show "split_backend_arg (l @ CHR ''='' # r) =
        Inr [(''source'', str_strip quote_chars l), (''destination'', str_strip quote_chars r)]"
    by (simp add: split_backend_arg_def sp unpack2_def)
next
  assume "count_list arg (CHR ''='') \<noteq> 1"
  then have "length (str_split (CHR ''='') arg) \<noteq> 2" by (simp add: str_split_length)
  then obtain msg where m: "unpack2 (str_split (CHR ''='') arg) = Inl (ValueError msg)"
    using unpack2_length by blast
  show "\<exists>msg. split_disk_arg arg = Inl (ValueError msg)"
    by (simp add: split_disk_arg_def m)
  show "\<exists>msg. split_backend_arg arg = Inl (ValueError msg)"
    by (simp add: split_backend_arg_def m)
next
  assume "count_list arg (CHR ''='') = 1"
  then have "length (str_split (CHR ''='') arg) = 2" by (simp add: str_split_length)
  then obtain a b where m: "unpack2 (str_split (CHR ''='') arg) = Inr (a, b)"
    using unpack2_two by blast
  show "\<exists>m. split_disk_arg arg = Inr m"
    by (simp add: split_disk_arg_def m)
  show "\<exists>m. split_backend_arg arg = Inr m"
    by (simp add: split_backend_arg_def m)
next
  have "set quote_chars = {CHR 0x27, CHR 0x22}" by (simp add: quote_chars_def)
  then show "\<exists>p q. s = p @ str_strip quote_chars s @ q \<and>
          set p \<subseteq> {CHR 0x27, CHR 0x22} \<and> set q \<subseteq> {CHR 0x27, CHR 0x22}"
    using str_strip_decomp [of s quote_chars] by simp
next
  have "set quote_chars = {CHR 0x27, CHR 0x22}" by (simp add: quote_chars_def)
  then show "str_strip quote_chars s = [] \<or>
        (hd (str_strip quote_chars s) \<notin> {CHR 0x27, CHR 0x22} \<and>
         last (str_strip quote_chars s) \<notin> {CHR 0x27, CHR 0x22})"
    using str_strip_ends [of quote_chars s] by auto
qed

text \<open>
  The theorem at the tokens \<open>'id#1'="lvm"\<close> and \<open>ceph=lvm\<close>, and at the tokens \<open>id#1\<close>
  (no \<open>=\<close>) and \<open>a=b=c\<close> (two).
\<close>

theorem split_mapping_arg_witness:
  "split_disk_arg (CHR 0x27 # ''id#1'' @ [CHR 0x27] @ ''='' @ [CHR 0x22] @ ''lvm'' @ [CHR 0x22]) =
     Inr [(''disk_id'', ''id#1''), (''destination'', ''lvm'')]
   \<and> split_backend_arg ''ceph=lvm'' = Inr [(''source'', ''ceph''), (''destination'', ''lvm'')]
   \<and> (\<exists>msg. split_disk_arg ''id#1'' = Inl (ValueError msg))
   \<and> (\<exists>msg. split_backend_arg ''a=b=c'' = Inl (ValueError msg))"
  using split_mapping_arg_one_separator
          [of "CHR 0x27 # ''id#1'' @ [CHR 0x27]" "[CHR 0x22] @ ''lvm'' @ [CHR 0x22]" "''id#1''" "[]"]
        split_mapping_arg_one_separator [of "''ceph''" "''lvm''" "''a=b=c''" "[]"]
  by (simp add: str_strip_def quote_chars_def)

text \<open>
  C2 as the claim words it fails: the token \<open>a=b=c\<close>, split once on \<open>=\<close>, would give
  \<open>a\<close> and \<open>b=c\<close>, but both converters split at every \<open>=\<close> and raise.
\<close>

theorem split_mapping_arg_counterexample:
  "split_disk_arg ''a=b=c'' = Inl (ValueError ''too many values to unpack (expected 2)'')
   \<and> split_backend_arg ''a=b=c'' = Inl (ValueError ''too many values to unpack (expected 2)'')
   \<and> str_split1 (CHR ''='') ''a=b=c'' = [''a'', ''b=c'']"
  by (simp add: split_disk_arg_def split_backend_arg_def unpack2_def)

section \<open>\<open>format_mapping\<close> (claim C9)\<close>

text \<open>
  C9. \<open>format_mapping\<close> writes one token \<open>'key'='value'\<close> for each item of the mapping,
  in the mapping's order, with a comma and a space between two tokens and nothing at
  the ends; \<open>{"a": "1", "b": "2"}\<close> gives \<open>'a'='1', 'b'='2'\<close>.
\<close>

theorem format_mapping_tokens:
  "format_mapping [] = []
   \<and> format_mapping [(k, v)] = sq @ k @ sq @ ''='' @ sq @ v @ sq
   \<and> format_mapping ((k, v) # (k', v') # rest) =
       sq @ k @ sq @ ''='' @ sq @ v @ sq @ '', '' @ format_mapping ((k', v') # rest)
   \<and> format_mapping [(''a'', ''1''), (''b'', ''2'')] =
       [CHR 0x27, CHR ''a'', CHR 0x27, CHR ''='', CHR 0x27, CHR ''1'', CHR 0x27, CHR '','', CHR '' '',
        CHR 0x27, CHR ''b'', CHR 0x27, CHR ''='', CHR 0x27, CHR ''2'', CHR 0x27]"
  by (simp add: format_mapping_def mapping_token_def sq_def)

section \<open>Storage mappings (claims C6, C5 and C4)\<close>

lemma get_storage_mappings_dict_eq:
  "get_storage_mappings_dict_from_args args =
     (if truthy (default_storage_backend args)
      then [(''default'', SStr (the (default_storage_backend args)))] else [])
     @ (if truthy (disk_storage_mappings args)
        then [(''disk_mappings'', SList (the (disk_storage_mappings args)))] else [])
     @ (if truthy (storage_backend_mappings args)
        then [(''backend_mappings'', SList (the (storage_backend_mappings args)))] else [])"
  unfolding get_storage_mappings_dict_from_args_def truthy_def Let_def
  by (simp split: option.splits)

text \<open>
  C6. The dict \<open>get_storage_mappings_dict_from_args\<close> returns holds, in this order, the key
  \<open>default\<close> if the default backend is true (neither \<open>None\<close> nor empty), \<open>disk_mappings\<close>
  if the list of disk mappings is, and \<open>backend_mappings\<close> if the list of backend mappings
  is, each with the attribute's value. It holds no other key and no \<open>None\<close>, and it is
  empty exactly when none of the three attributes is true.
\<close>

theorem get_storage_mappings_dict_truthy_keys:
  fixes args :: storage_args
  defines "sm \<equiv> get_storage_mappings_dict_from_args args"
  shows
  "sm = (if truthy (default_storage_backend args)
          then [(''default'', SStr (the (default_storage_backend args)))] else [])
        @ (if truthy (disk_storage_mappings args)
           then [(''disk_mappings'', SList (the (disk_storage_mappings args)))] else [])
        @ (if truthy (storage_backend_mappings args)
           then [(''backend_mappings'', SList (the (storage_backend_mappings args)))] else [])
   \<and> (''default'' \<in> fst ` set sm) = truthy (default_storage_backend args)
   \<and> (''disk_mappings'' \<in> fst ` set sm) = truthy (disk_storage_mappings args)
   \<and> (''backend_mappings'' \<in> fst ` set sm) = truthy (storage_backend_mappings args)
   \<and> fst ` set sm \<subseteq> {''default'', ''disk_mappings'', ''backend_mappings''}
   \<and> SNone \<notin> snd ` set sm
   \<and> (sm = []) = (\<not> truthy (default_storage_backend args) \<and> \<not> truthy (disk_storage_mappings args)
                  \<and> \<not> truthy (storage_backend_mappings args))"
  unfolding sm_def get_storage_mappings_dict_eq by simp

lemma mappings_dict_fold:
  "well_formed_entries key ms \<Longrightarrow>
   mappings_dict key ms acc = Inr (fold (\<lambda>(k, v). AList.update k v) (entry_pairs key ms) acc)"
  by (induction ms arbitrary: acc)
     (auto simp: well_formed_entries_def entry_pairs_def dict_getitem_def)

lemma map_of_fold_update:
  "map_of (fold (\<lambda>(k, v). AList.update k v) ps acc) = map_of (rev ps @ acc)"
  by (induction ps arbitrary: acc) (auto simp: update_conv' fun_eq_iff map_add_def split: option.splits)

lemma distinct_fold_update:
  "distinct (map fst acc) \<Longrightarrow> distinct (map fst (fold (\<lambda>(k, v). AList.update k v) ps acc))"
  by (induction ps arbitrary: acc) (auto simp: distinct_update)

lemma update_new_key: "k \<notin> fst ` set al \<Longrightarrow> AList.update k v al = al @ [(k, v)]"
  by (induction al) auto

lemma fold_update_distinct:
  "distinct (map fst (acc @ ps)) \<Longrightarrow> fold (\<lambda>(k, v). AList.update k v) ps acc = acc @ ps"
proof (induction ps arbitrary: acc)
  case Nil
  then show ?case by simp
next
  case (Cons p ps)
  obtain k v where p: "p = (k, v)" by (cases p)
  from Cons.prems p have "k \<notin> fst ` set acc" by auto
  then have u: "AList.update k v acc = acc @ [(k, v)]" by (rule update_new_key)
  from Cons.prems p have "distinct (map fst ((acc @ [(k, v)]) @ ps))" by auto
  then have "fold (\<lambda>(k, v). AList.update k v) ps (acc @ [(k, v)]) = (acc @ [(k, v)]) @ ps"
    by (rule Cons.IH)
  with u p show ?case by simp
qed

lemma mappings_comprehension_list:
  assumes "well_formed_entries key ms"
  shows "\<exists>d. mappings_comprehension key (SList ms) = Inr d
           \<and> map_of d = map_of (rev (entry_pairs key ms))
           \<and> distinct (map fst d)
           \<and> (distinct (map fst (entry_pairs key ms)) \<longrightarrow> d = entry_pairs key ms)"
proof -
  let ?d = "fold (\<lambda>(k, v). AList.update k v) (entry_pairs key ms) []"
  have 1: "mappings_comprehension key (SList ms) = Inr ?d"
    using assms by (simp add: mappings_comprehension_def mappings_dict_fold)
  have 2: "map_of ?d = map_of (rev (entry_pairs key ms))"
    using map_of_fold_update [of "entry_pairs key ms" "[]"] by simp
  have 3: "distinct (map fst ?d)" by (rule distinct_fold_update) simp
  have 4: "distinct (map fst (entry_pairs key ms)) \<longrightarrow> ?d = entry_pairs key ms"
    using fold_update_distinct [of "[]" "entry_pairs key ms"] by simp
  from 1 2 3 4 show ?thesis by blast
qed

text \<open>
  C5. \<open>parse_storage_mappings(None)\<close> is \<open>(None, {}, {})\<close>. For a dict \<open>sm\<close> whose
  \<open>backend_mappings\<close> and \<open>disk_mappings\<close> (each the empty list when the key is missing)
  are lists of entries that have their key (\<open>source\<close>, \<open>disk_id\<close>) and a \<open>destination\<close>, it
  returns without error \<open>sm.get("default")\<close> and two dicts: looking a key up in one gives
  the destination of the last entry of the list with that key (\<open>map_of\<close> of the reversed
  list of pairs: the first pair found from the end), so a repeated key keeps its last
  value. A missing list gives the empty dict.
\<close>

theorem parse_storage_mappings_last_write_wins:
  assumes "dict_get sm ''backend_mappings'' (SList []) = SList bs"
    and "dict_get sm ''disk_mappings'' (SList []) = SList ds"
    and "well_formed_entries ''source'' bs"
    and "well_formed_entries ''disk_id'' ds"
  shows "parse_storage_mappings None = Inr (SNone, [], [])
    \<and> (\<exists>b d. parse_storage_mappings (Some sm) = Inr (dict_get sm ''default'' SNone, b, d)
          \<and> map_of b = map_of (rev (entry_pairs ''source'' bs))
          \<and> map_of d = map_of (rev (entry_pairs ''disk_id'' ds))
          \<and> distinct (map fst b) \<and> distinct (map fst d)
          \<and> (map_of sm ''backend_mappings'' = None \<longrightarrow> b = [])
          \<and> (map_of sm ''disk_mappings'' = None \<longrightarrow> d = []))"
proof -
  obtain b where b: "mappings_comprehension ''source'' (SList bs) = Inr b"
    "map_of b = map_of (rev (entry_pairs ''source'' bs))" "distinct (map fst b)"
    "distinct (map fst (entry_pairs ''source'' bs)) \<longrightarrow> b = entry_pairs ''source'' bs"
    using mappings_comprehension_list [OF assms(3)] by blast
  obtain d where d: "mappings_comprehension ''disk_id'' (SList ds) = Inr d"
    "map_of d = map_of (rev (entry_pairs ''disk_id'' ds))" "distinct (map fst d)"
    "distinct (map fst (entry_pairs ''disk_id'' ds)) \<longrightarrow> d = entry_pairs ''disk_id'' ds"
    using mappings_comprehension_list [OF assms(4)] by blast
  have p: "parse_storage_mappings (Some sm) = Inr (dict_get sm ''default'' SNone, b, d)"
    by (simp add: parse_storage_mappings_def assms(1,2) b(1) d(1))
  have nb: "map_of sm ''backend_mappings'' = None \<longrightarrow> b = []"
  proof
    assume "map_of sm ''backend_mappings'' = None"
    with assms(1) have "bs = []" by (simp add: dict_get_def)
    with b(4) show "b = []" by (simp add: entry_pairs_def)
  qed
  have nd: "map_of sm ''disk_mappings'' = None \<longrightarrow> d = []"
  proof
    assume "map_of sm ''disk_mappings'' = None"
    with assms(2) have "ds = []" by (simp add: dict_get_def)
    with d(4) show "d = []" by (simp add: entry_pairs_def)
  qed
  have n: "parse_storage_mappings None = Inr (SNone, [], [])"
    by (simp add: parse_storage_mappings_def)
  have "\<exists>b d. parse_storage_mappings (Some sm) = Inr (dict_get sm ''default'' SNone, b, d)
          \<and> map_of b = map_of (rev (entry_pairs ''source'' bs))
          \<and> map_of d = map_of (rev (entry_pairs ''disk_id'' ds))
          \<and> distinct (map fst b) \<and> distinct (map fst d)
          \<and> (map_of sm ''backend_mappings'' = None \<longrightarrow> b = [])
          \<and> (map_of sm ''disk_mappings'' = None \<longrightarrow> d = [])"
    using p b(2,3) d(2,3) nb nd by (intro exI [of _ b] exI [of _ d]) simp
  with n show ?thesis by (rule conjI)
qed

text \<open>
  The theorem at \<open>{"default": "lvm", "backend_mappings": [{source: ceph, destination: nfs},
  {source: ceph, destination: lvm}]}\<close>: the hypotheses hold, no disk list gives the empty
  dict, and the repeated key \<open>ceph\<close> keeps \<open>lvm\<close>.
\<close>

theorem parse_storage_mappings_witness:
  "well_formed_entries ''source'' [[(''source'', ''ceph''), (''destination'', ''nfs'')],
                                   [(''source'', ''ceph''), (''destination'', ''lvm'')]]
   \<and> well_formed_entries ''disk_id'' []
   \<and> (\<exists>b. parse_storage_mappings (Some [(''default'', SStr ''lvm''),
         (''backend_mappings'', SList [[(''source'', ''ceph''), (''destination'', ''nfs'')],
                                       [(''source'', ''ceph''), (''destination'', ''lvm'')]])])
            = Inr (SStr ''lvm'', b, [])
          \<and> map_of b ''ceph'' = Some ''lvm'')"
proof -
  let ?bs = "[[(''source'', ''ceph''), (''destination'', ''nfs'')],
              [(''source'', ''ceph''), (''destination'', ''lvm'')]]"
  let ?sm = "[(''default'', SStr ''lvm''), (''backend_mappings'', SList ?bs)]"
  have 1: "dict_get ?sm ''backend_mappings'' (SList []) = SList ?bs" by (simp add: dict_get_def)
  have 2: "dict_get ?sm ''disk_mappings'' (SList []) = SList []" by (simp add: dict_get_def)
  have 3: "well_formed_entries ''source'' ?bs" by (simp add: well_formed_entries_def)
  have 4: "well_formed_entries ''disk_id'' []" by (simp add: well_formed_entries_def)
  from parse_storage_mappings_last_write_wins [OF 1 2 3 4]
  have "\<exists>b d. parse_storage_mappings (Some ?sm) = Inr (dict_get ?sm ''default'' SNone, b, d)
          \<and> map_of b = map_of (rev (entry_pairs ''source'' ?bs))
          \<and> map_of d = map_of (rev (entry_pairs ''disk_id'' []))
          \<and> distinct (map fst b) \<and> distinct (map fst d)
          \<and> (map_of ?sm ''backend_mappings'' = None \<longrightarrow> b = [])
          \<and> (map_of ?sm ''disk_mappings'' = None \<longrightarrow> d = [])"
    by (rule conjunct2)
  then obtain b d where r: "parse_storage_mappings (Some ?sm) = Inr (dict_get ?sm ''default'' SNone, b, d)
          \<and> map_of b = map_of (rev (entry_pairs ''source'' ?bs))
          \<and> map_of d = map_of (rev (entry_pairs ''disk_id'' []))
          \<and> distinct (map fst b) \<and> distinct (map fst d)
          \<and> (map_of ?sm ''backend_mappings'' = None \<longrightarrow> b = [])
          \<and> (map_of ?sm ''disk_mappings'' = None \<longrightarrow> d = [])"
    by (elim exE) (rule that)
  from r have d: "d = []" by simp
  from r have "map_of b = map_of (rev (entry_pairs ''source'' ?bs))" by (elim conjE)
  then have "map_of b ''ceph'' = Some ''lvm''" by (simp add: entry_pairs_def)
  moreover from r have "parse_storage_mappings (Some ?sm) = Inr (dict_get ?sm ''default'' SNone, b, d)"
    by (elim conjE)
  ultimately show ?thesis using d 3 4 by (simp add: dict_get_def)
qed

lemma dict_get_args_backend:
  "dict_get (get_storage_mappings_dict_from_args args) ''backend_mappings'' (SList []) =
     SList (list_or_empty (storage_backend_mappings args))"
  unfolding get_storage_mappings_dict_eq
  by (simp add: dict_get_def truthy_def list_or_empty_def split: option.splits)

lemma dict_get_args_disk:
  "dict_get (get_storage_mappings_dict_from_args args) ''disk_mappings'' (SList []) =
     SList (list_or_empty (disk_storage_mappings args))"
  unfolding get_storage_mappings_dict_eq
  by (simp add: dict_get_def truthy_def list_or_empty_def split: option.splits)

lemma dict_get_args_default:
  "dict_get (get_storage_mappings_dict_from_args args) ''default'' SNone =
     (if truthy (default_storage_backend args) then SStr (the (default_storage_backend args))
      else SNone)"
  unfolding get_storage_mappings_dict_eq
  by (simp add: dict_get_def truthy_def split: option.splits)

text \<open>
  C4, as the code has it. For arguments whose mapping entries have their key and a
  destination (as the converters build them), the dict \<open>get_storage_mappings_dict_from_args\<close>
  builds is parsed without error into: the default backend when it is not empty, and
  \<open>None\<close> when it is empty or was not given; a backend dict and a disk dict in which a key
  has the destination of the last entry given for it. When no key is given twice, the two
  dicts are exactly the (key, destination) pairs of the arguments, in their order.
\<close>

theorem storage_mappings_round_trip:
  assumes "well_formed_entries ''source'' (list_or_empty (storage_backend_mappings args))"
      and "well_formed_entries ''disk_id'' (list_or_empty (disk_storage_mappings args))"
  shows "\<exists>b d. parse_storage_mappings (Some (get_storage_mappings_dict_from_args args)) =
            Inr (if truthy (default_storage_backend args)
                 then SStr (the (default_storage_backend args)) else SNone, b, d)
         \<and> map_of b = map_of (rev (entry_pairs ''source'' (list_or_empty (storage_backend_mappings args))))
         \<and> map_of d = map_of (rev (entry_pairs ''disk_id'' (list_or_empty (disk_storage_mappings args))))
         \<and> (distinct (map fst (entry_pairs ''source'' (list_or_empty (storage_backend_mappings args))))
              \<longrightarrow> b = entry_pairs ''source'' (list_or_empty (storage_backend_mappings args)))
         \<and> (distinct (map fst (entry_pairs ''disk_id'' (list_or_empty (disk_storage_mappings args))))
              \<longrightarrow> d = entry_pairs ''disk_id'' (list_or_empty (disk_storage_mappings args)))"
proof -
  let ?bs = "list_or_empty (storage_backend_mappings args)"
  let ?ds = "list_or_empty (disk_storage_mappings args)"
  obtain b where b: "mappings_comprehension ''source'' (SList ?bs) = Inr b"
    "map_of b = map_of (rev (entry_pairs ''source'' ?bs))"
    "distinct (map fst (entry_pairs ''source'' ?bs)) \<longrightarrow> b = entry_pairs ''source'' ?bs"
    using mappings_comprehension_list [OF assms(1)] by blast
  obtain d where d: "mappings_comprehension ''disk_id'' (SList ?ds) = Inr d"
    "map_of d = map_of (rev (entry_pairs ''disk_id'' ?ds))"
    "distinct (map fst (entry_pairs ''disk_id'' ?ds)) \<longrightarrow> d = entry_pairs ''disk_id'' ?ds"
    using mappings_comprehension_list [OF assms(2)] by blast
  have p: "parse_storage_mappings (Some (get_storage_mappings_dict_from_args args)) =
            Inr (if truthy (default_storage_backend args)
                 then SStr (the (default_storage_backend args)) else SNone, b, d)"
    by (simp only: parse_storage_mappings_def option.case dict_get_args_backend dict_get_args_disk
          dict_get_args_default b(1) d(1) sum.case)
  show ?thesis
    using p b(2,3) d(2,3) by (intro exI [of _ b] exI [of _ d]) simp
qed

text \<open>
  The theorem at \<open>--default-storage-backend lvm --disk-storage-mapping a=x
  --disk-storage-mapping b=y --storage-backend-mapping ceph=nfs\<close>: the hypotheses hold and,
  the keys being distinct, every association comes back.
\<close>

theorem storage_mappings_round_trip_witness:
  "well_formed_entries ''source'' [[(''source'', ''ceph''), (''destination'', ''nfs'')]]
   \<and> well_formed_entries ''disk_id'' [[(''disk_id'', ''a''), (''destination'', ''x'')],
                                        [(''disk_id'', ''b''), (''destination'', ''y'')]]
   \<and> parse_storage_mappings (Some (get_storage_mappings_dict_from_args
        \<lparr>default_storage_backend = Some ''lvm'',
         disk_storage_mappings =
           Some [[(''disk_id'', ''a''), (''destination'', ''x'')],
                 [(''disk_id'', ''b''), (''destination'', ''y'')]],
         storage_backend_mappings = Some [[(''source'', ''ceph''), (''destination'', ''nfs'')]]\<rparr>))
       = Inr (SStr ''lvm'', [(''ceph'', ''nfs'')], [(''a'', ''x''), (''b'', ''y'')])"
proof -
  let ?bs = "[[(''source'', ''ceph''), (''destination'', ''nfs'')]]"
  let ?ds = "[[(''disk_id'', ''a''), (''destination'', ''x'')],
              [(''disk_id'', ''b''), (''destination'', ''y'')]]"
  let ?args = "\<lparr>default_storage_backend = Some ''lvm'', disk_storage_mappings = Some ?ds,
                storage_backend_mappings = Some ?bs\<rparr>"
  have b: "well_formed_entries ''source'' ?bs" by (simp add: well_formed_entries_def)
  have d: "well_formed_entries ''disk_id'' ?ds" by (simp add: well_formed_entries_def)
  have 1: "well_formed_entries ''source'' (list_or_empty (storage_backend_mappings ?args))"
    using b by (simp add: list_or_empty_def)
  have 2: "well_formed_entries ''disk_id'' (list_or_empty (disk_storage_mappings ?args))"
    using d by (simp add: list_or_empty_def)
  from storage_mappings_round_trip [OF 1 2] obtain b' d' where
    all: "parse_storage_mappings (Some (get_storage_mappings_dict_from_args ?args)) =
          Inr (if truthy (default_storage_backend ?args)
               then SStr (the (default_storage_backend ?args)) else SNone, b', d')
      \<and> map_of b' = map_of (rev (entry_pairs ''source'' (list_or_empty (storage_backend_mappings ?args))))
      \<and> map_of d' = map_of (rev (entry_pairs ''disk_id'' (list_or_empty (disk_storage_mappings ?args))))
      \<and> (distinct (map fst (entry_pairs ''source'' (list_or_empty (storage_backend_mappings ?args))))
              \<longrightarrow> b' = entry_pairs ''source'' (list_or_empty (storage_backend_mappings ?args)))
      \<and> (distinct (map fst (entry_pairs ''disk_id'' (list_or_empty (disk_storage_mappings ?args))))
              \<longrightarrow> d' = entry_pairs ''disk_id'' (list_or_empty (disk_storage_mappings ?args)))"
    by (elim exE) (rule that)
  from all have
    r: "parse_storage_mappings (Some (get_storage_mappings_dict_from_args ?args)) =
          Inr (if truthy (default_storage_backend ?args)
               then SStr (the (default_storage_backend ?args)) else SNone, b', d')"
    by (elim conjE)
  from all have
    rb: "distinct (map fst (entry_pairs ''source'' (list_or_empty (storage_backend_mappings ?args))))
              \<longrightarrow> b' = entry_pairs ''source'' (list_or_empty (storage_backend_mappings ?args))"
    by (elim conjE)
  from all have
    rd: "distinct (map fst (entry_pairs ''disk_id'' (list_or_empty (disk_storage_mappings ?args))))
              \<longrightarrow> d' = entry_pairs ''disk_id'' (list_or_empty (disk_storage_mappings ?args))"
    by (elim conjE)
  from rb have b': "b' = [(''ceph'', ''nfs'')]" by (simp add: entry_pairs_def list_or_empty_def)
  from rd have d': "d' = [(''a'', ''x''), (''b'', ''y'')]"
    by (simp add: entry_pairs_def list_or_empty_def)
  from r have "parse_storage_mappings (Some (get_storage_mappings_dict_from_args ?args)) =
          Inr (SStr ''lvm'', b', d')" by (simp add: truthy_def)
  with b d b' d' show ?thesis by simp
qed

text \<open>
  C4 as the claim words it fails at \<open>--default-storage-backend "" --disk-storage-mapping a=x
  --disk-storage-mapping a=y\<close>: the empty default comes back as \<open>None\<close>, and of the two
  associations given for the disk \<open>a\<close> only the later one, \<open>a\<close> to \<open>y\<close>, comes back.
\<close>

theorem storage_mappings_round_trip_counterexample:
  "parse_storage_mappings (Some (get_storage_mappings_dict_from_args
      \<lparr>default_storage_backend = Some [],
       disk_storage_mappings =
         Some [[(''disk_id'', ''a''), (''destination'', ''x'')],
               [(''disk_id'', ''a''), (''destination'', ''y'')]],
       storage_backend_mappings = None\<rparr>))
   = Inr (SNone, [], [(''a'', ''y'')])"
  by (simp add: get_storage_mappings_dict_from_args_def truthy_def parse_storage_mappings_def
        dict_get_def mappings_comprehension_def dict_getitem_def)

section \<open>\<open>compose_user_scripts\<close> (claim C3)\<close>

lemma global_loop_filter:
  "global_loop os_list fs g toks = global_loop os_list fs g (filter (\<lambda>t. CHR ''='' \<in> set t) toks)"
proof (induction toks arbitrary: g)
  case Nil
  then show ?case by simp
next
  case (Cons tok toks)
  show ?case
  proof (cases "CHR ''='' \<in> set tok")
    case True
    then show ?thesis using Cons.IH by (simp add: Let_def split: option.splits)
  next
    case False
    then show ?thesis using Cons.IH by (simp add: str_split1_no_sep)
  qed
qed

lemma instance_loop_filter:
  "instance_loop fs i toks = instance_loop fs i (filter (\<lambda>t. CHR ''='' \<in> set t) toks)"
proof (induction toks arbitrary: i)
  case Nil
  then show ?case by simp
next
  case (Cons tok toks)
  show ?case
  proof (cases "CHR ''='' \<in> set tok")
    case True
    then show ?thesis using Cons.IH by (simp add: Let_def split: option.splits)
  next
    case False
    then show ?thesis using Cons.IH by (simp add: str_split1_no_sep)
  qed
qed

lemma truthy_list_or_empty: "(if truthy v then the v else []) = list_or_empty v"
  by (simp add: truthy_def list_or_empty_def split: option.splits)

lemma compose_user_scripts_loops:
  "compose_user_scripts os_list fs gs is =
     (case global_loop os_list fs [] (list_or_empty gs) of
        Inl e \<Rightarrow> Inl e
      | Inr g \<Rightarrow>
          (case instance_loop fs [] (list_or_empty is) of
             Inl e \<Rightarrow> Inl e
           | Inr i \<Rightarrow> Inr \<lparr>scripts_global = g, scripts_instances = i\<rparr>))"
  by (simp add: compose_user_scripts_def truthy_list_or_empty)

lemma list_or_empty_filter:
  "list_or_empty (map_option (filter P) v) = filter P (list_or_empty v)"
  by (simp add: list_or_empty_def split: option.splits)

lemma str_split1_token: "c \<in> set t \<Longrightarrow> str_split1 c t = [takeWhile (\<lambda>x. x \<noteq> c) t, drop 1 (dropWhile (\<lambda>x. x \<noteq> c) t)]"
  by (induction t) auto

lemma global_loop_all_valid:
  "list_all (\<lambda>t. CHR ''='' \<in> set t \<longrightarrow> token_key t \<in> set os_list \<and> fs (token_path t) \<noteq> None) toks \<Longrightarrow>
   global_loop os_list fs acc toks = Inr (fold (\<lambda>(k, v). AList.update k v) (script_pairs fs toks) acc)"
proof (induction toks arbitrary: acc)
  case Nil
  then show ?case by (simp add: script_pairs_def)
next
  case (Cons t toks)
  from Cons.prems have rest: "list_all (\<lambda>t. CHR ''='' \<in> set t \<longrightarrow> token_key t \<in> set os_list \<and> fs (token_path t) \<noteq> None) toks"
    by simp
  show ?case
  proof (cases "CHR ''='' \<in> set t")
    case True
    with Cons.prems obtain script where v: "token_key t \<in> set os_list" "fs (token_path t) = Some script"
      by auto
    have sp: "str_split1 (CHR ''='') t = [token_key t, token_path t]"
      using True by (simp add: str_split1_token token_key_def token_path_def)
    have "global_loop os_list fs acc (t # toks) =
            global_loop os_list fs (AList.update (token_key t) script acc) toks"
      by (simp add: sp v)
    also have "\<dots> = Inr (fold (\<lambda>(k, v). AList.update k v) (script_pairs fs toks)
                          (AList.update (token_key t) script acc))"
      by (rule Cons.IH [OF rest])
    also have "\<dots> = Inr (fold (\<lambda>(k, v). AList.update k v) (script_pairs fs (t # toks)) acc)"
      using True v by (simp add: script_pairs_def)
    finally show ?thesis .
  next
    case False
    then have "global_loop os_list fs acc (t # toks) = global_loop os_list fs acc toks"
      by (simp add: str_split1_no_sep)
    also have "\<dots> = Inr (fold (\<lambda>(k, v). AList.update k v) (script_pairs fs toks) acc)"
      by (rule Cons.IH [OF rest])
    also have "\<dots> = Inr (fold (\<lambda>(k, v). AList.update k v) (script_pairs fs (t # toks)) acc)"
      using False by (simp add: script_pairs_def)
    finally show ?thesis .
  qed
qed

lemma instance_loop_all_valid:
  "list_all (\<lambda>t. CHR ''='' \<in> set t \<longrightarrow> fs (token_path t) \<noteq> None) toks \<Longrightarrow>
   instance_loop fs acc toks = Inr (fold (\<lambda>(k, v). AList.update k v) (script_pairs fs toks) acc)"
proof (induction toks arbitrary: acc)
  case Nil
  then show ?case by (simp add: script_pairs_def)
next
  case (Cons t toks)
  from Cons.prems have rest: "list_all (\<lambda>t. CHR ''='' \<in> set t \<longrightarrow> fs (token_path t) \<noteq> None) toks"
    by simp
  show ?case
  proof (cases "CHR ''='' \<in> set t")
    case True
    with Cons.prems obtain script where v: "fs (token_path t) = Some script"
      by auto
    have sp: "str_split1 (CHR ''='') t = [token_key t, token_path t]"
      using True by (simp add: str_split1_token token_key_def token_path_def)
    have "instance_loop fs acc (t # toks) =
            instance_loop fs (AList.update (token_key t) script acc) toks"
      by (simp add: sp v)
    also have "\<dots> = Inr (fold (\<lambda>(k, v). AList.update k v) (script_pairs fs toks)
                          (AList.update (token_key t) script acc))"
      by (rule Cons.IH [OF rest])
    also have "\<dots> = Inr (fold (\<lambda>(k, v). AList.update k v) (script_pairs fs (t # toks)) acc)"
      using True v by (simp add: script_pairs_def)
    finally show ?thesis .
  next
    case False
    then have "instance_loop fs acc (t # toks) = instance_loop fs acc toks"
      by (simp add: str_split1_no_sep)
    also have "\<dots> = Inr (fold (\<lambda>(k, v). AList.update k v) (script_pairs fs toks) acc)"
      by (rule Cons.IH [OF rest])
    also have "\<dots> = Inr (fold (\<lambda>(k, v). AList.update k v) (script_pairs fs (t # toks)) acc)"
      using False by (simp add: script_pairs_def)
    finally show ?thesis .
  qed
qed

lemma compose_user_scripts_all_valid:
  assumes "list_all (\<lambda>t. CHR ''='' \<in> set t \<longrightarrow> token_key t \<in> set os_list \<and> fs (token_path t) \<noteq> None)
             (list_or_empty gs)"
    and "list_all (\<lambda>t. CHR ''='' \<in> set t \<longrightarrow> fs (token_path t) \<noteq> None) (list_or_empty is)"
  shows "\<exists>g i. compose_user_scripts os_list fs gs is = Inr \<lparr>scripts_global = g, scripts_instances = i\<rparr>
          \<and> map_of g = map_of (rev (script_pairs fs (list_or_empty gs)))
          \<and> map_of i = map_of (rev (script_pairs fs (list_or_empty is)))"
proof -
  let ?g = "fold (\<lambda>(k, v). AList.update k v) (script_pairs fs (list_or_empty gs)) []"
  let ?i = "fold (\<lambda>(k, v). AList.update k v) (script_pairs fs (list_or_empty is)) []"
  have "compose_user_scripts os_list fs gs is = Inr \<lparr>scripts_global = ?g, scripts_instances = ?i\<rparr>"
    by (simp add: compose_user_scripts_loops global_loop_all_valid [OF assms(1)]
          instance_loop_all_valid [OF assms(2)])
  moreover have "map_of ?g = map_of (rev (script_pairs fs (list_or_empty gs)))"
    using map_of_fold_update [of "script_pairs fs (list_or_empty gs)" "[]"] by simp
  moreover have "map_of ?i = map_of (rev (script_pairs fs (list_or_empty is)))"
    using map_of_fold_update [of "script_pairs fs (list_or_empty is)" "[]"] by simp
  ultimately show ?thesis by blast
qed

text \<open>
  C3. A token without \<open>=\<close> changes nothing: the result is that of the lists without such
  tokens, and in each loop such a token is passed over without an error and without a
  store. A global token \<open>k=p\<close> (cut at its first \<open>=\<close>, so \<open>p\<close> may hold more) raises
  \<open>ValueError\<close> with the list of the valid names when \<open>k\<close> is not in \<open>OS_LIST\<close>, raises
  \<open>ValueError\<close> naming \<open>p\<close> when \<open>p\<close> is no file, and otherwise stores the text of the file
  under \<open>k\<close> and goes on. An instance token is treated the same way without the check of
  the name. A store under a key replaces what the key had and leaves the other keys. The
  result is that of the global loop and then of the instance loop, each from the empty
  dict, \<open>None\<close> standing for the empty list. When every token that has a \<open>=\<close> passes its
  checks, the call returns the two dicts, and a key has the text of the file of the last
  token given for it.
\<close>

theorem compose_user_scripts_tokens:
  "compose_user_scripts os_list fs gs is =
     compose_user_scripts os_list fs (map_option (filter (\<lambda>t. CHR ''='' \<in> set t)) gs)
                                     (map_option (filter (\<lambda>t. CHR ''='' \<in> set t)) is)
   \<and> (CHR ''='' \<notin> set tok \<longrightarrow>
         global_loop os_list fs g (tok # rest) = global_loop os_list fs g rest
       \<and> instance_loop fs i (tok # rest) = instance_loop fs i rest)
   \<and> (CHR ''='' \<notin> set k \<and> k \<notin> set os_list \<longrightarrow>
         global_loop os_list fs g ((k @ CHR ''='' # p) # rest) =
           Inl (ValueError (''Invalid OS '' @ k @ ''. Available options are: ''
                            @ str_join '', '' os_list)))
   \<and> (CHR ''='' \<notin> set k \<and> k \<in> set os_list \<and> fs p = None \<longrightarrow>
         global_loop os_list fs g ((k @ CHR ''='' # p) # rest) =
           Inl (ValueError (''Could not find '' @ p)))
   \<and> (CHR ''='' \<notin> set k \<and> k \<in> set os_list \<and> fs p = Some script \<longrightarrow>
         global_loop os_list fs g ((k @ CHR ''='' # p) # rest) =
           global_loop os_list fs (AList.update k script g) rest)
   \<and> (CHR ''='' \<notin> set k \<and> fs p = None \<longrightarrow>
         instance_loop fs i ((k @ CHR ''='' # p) # rest) =
           Inl (ValueError (''Could not find '' @ p)))
   \<and> (CHR ''='' \<notin> set k \<and> fs p = Some script \<longrightarrow>
         instance_loop fs i ((k @ CHR ''='' # p) # rest) =
           instance_loop fs (AList.update k script i) rest)
   \<and> map_of (AList.update k script g) = (map_of g)(k \<mapsto> script)
   \<and> compose_user_scripts os_list fs gs is =
       (case global_loop os_list fs [] (list_or_empty gs) of
          Inl e \<Rightarrow> Inl e
        | Inr g \<Rightarrow>
            (case instance_loop fs [] (list_or_empty is) of
               Inl e \<Rightarrow> Inl e
             | Inr i \<Rightarrow> Inr \<lparr>scripts_global = g, scripts_instances = i\<rparr>))
   \<and> (list_all (\<lambda>t. CHR ''='' \<in> set t \<longrightarrow> token_key t \<in> set os_list \<and> fs (token_path t) \<noteq> None)
         (list_or_empty gs)
       \<and> list_all (\<lambda>t. CHR ''='' \<in> set t \<longrightarrow> fs (token_path t) \<noteq> None) (list_or_empty is) \<longrightarrow>
         (\<exists>g i. compose_user_scripts os_list fs gs is =
                  Inr \<lparr>scripts_global = g, scripts_instances = i\<rparr>
              \<and> map_of g = map_of (rev (script_pairs fs (list_or_empty gs)))
              \<and> map_of i = map_of (rev (script_pairs fs (list_or_empty is)))))"
proof (intro conjI impI)
  show "compose_user_scripts os_list fs gs is =
     compose_user_scripts os_list fs (map_option (filter (\<lambda>t. CHR ''='' \<in> set t)) gs)
                                     (map_option (filter (\<lambda>t. CHR ''='' \<in> set t)) is)"
    unfolding compose_user_scripts_loops list_or_empty_filter
    by (subst global_loop_filter, subst instance_loop_filter, rule refl)
next
  assume "CHR ''='' \<notin> set tok"
  then show "global_loop os_list fs g (tok # rest) = global_loop os_list fs g rest"
    and "instance_loop fs i (tok # rest) = instance_loop fs i rest"
    by (simp_all add: str_split1_no_sep)
next
  assume "CHR ''='' \<notin> set k \<and> k \<notin> set os_list"
  then show "global_loop os_list fs g ((k @ CHR ''='' # p) # rest) =
           Inl (ValueError (''Invalid OS '' @ k @ ''. Available options are: ''
                            @ str_join '', '' os_list))"
    by (simp add: str_split1_append)
next
  assume "CHR ''='' \<notin> set k \<and> k \<in> set os_list \<and> fs p = None"
  then show "global_loop os_list fs g ((k @ CHR ''='' # p) # rest) =
           Inl (ValueError (''Could not find '' @ p))"
    by (simp add: str_split1_append)
next
  assume "CHR ''='' \<notin> set k \<and> k \<in> set os_list \<and> fs p = Some script"
  then show "global_loop os_list fs g ((k @ CHR ''='' # p) # rest) =
           global_loop os_list fs (AList.update k script g) rest"
    by (simp add: str_split1_append)
next
  assume "CHR ''='' \<notin> set k \<and> fs p = None"
  then show "instance_loop fs i ((k @ CHR ''='' # p) # rest) =
           Inl (ValueError (''Could not find '' @ p))"
    by (simp add: str_split1_append)
next
  assume "CHR ''='' \<notin> set k \<and> fs p = Some script"
  then show "instance_loop fs i ((k @ CHR ''='' # p) # rest) =
           instance_loop fs (AList.update k script i) rest"
    by (simp add: str_split1_append)
next
  show "map_of (AList.update k script g) = (map_of g)(k \<mapsto> script)"
    by (rule update_conv')
next
  show "compose_user_scripts os_list fs gs is =
       (case global_loop os_list fs [] (list_or_empty gs) of
          Inl e \<Rightarrow> Inl e
        | Inr g \<Rightarrow>
            (case instance_loop fs [] (list_or_empty is) of
               Inl e \<Rightarrow> Inl e
             | Inr i \<Rightarrow> Inr \<lparr>scripts_global = g, scripts_instances = i\<rparr>))"
    by (rule compose_user_scripts_loops)
next
  assume "list_all (\<lambda>t. CHR ''='' \<in> set t \<longrightarrow> token_key t \<in> set os_list \<and> fs (token_path t) \<noteq> None)
         (list_or_empty gs)
       \<and> list_all (\<lambda>t. CHR ''='' \<in> set t \<longrightarrow> fs (token_path t) \<noteq> None) (list_or_empty is)"
  then show "\<exists>g i. compose_user_scripts os_list fs gs is =
                  Inr \<lparr>scripts_global = g, scripts_instances = i\<rparr>
              \<and> map_of g = map_of (rev (script_pairs fs (list_or_empty gs)))
              \<and> map_of i = map_of (rev (script_pairs fs (list_or_empty is)))"
    by (intro compose_user_scripts_all_valid) (erule conjunct1, erule conjunct2)
qed

text \<open>
  The theorem at \<open>OS_LIST = [linux, windows]\<close> and a file \<open>/tmp/exists.sh\<close>: a token
  without \<open>=\<close> before a good one, a missing file, an unknown name, and an instance given
  twice.
\<close>

theorem compose_user_scripts_witness:
  "CHR ''='' \<notin> set ''junk''
   \<and> ''linux'' \<in> set [''linux'', ''windows''] \<and> ''bogusOS'' \<notin> set [''linux'', ''windows'']
   \<and> compose_user_scripts [''linux'', ''windows''] [''/tmp/exists.sh'' \<mapsto> ''echo hi'']
         (Some [''junk'', ''linux=/tmp/exists.sh'']) None =
       Inr \<lparr>scripts_global = [(''linux'', ''echo hi'')], scripts_instances = []\<rparr>
   \<and> compose_user_scripts [''linux'', ''windows''] [''/tmp/exists.sh'' \<mapsto> ''echo hi'']
         (Some [''linux=/no/such/file'']) None =
       Inl (ValueError ''Could not find /no/such/file'')
   \<and> compose_user_scripts [''linux'', ''windows''] [''/tmp/exists.sh'' \<mapsto> ''echo hi'']
         (Some [''bogusOS=/tmp/exists.sh'']) None =
       Inl (ValueError ''Invalid OS bogusOS. Available options are: linux, windows'')
   \<and> compose_user_scripts [''linux'', ''windows'']
         [''/tmp/exists.sh'' \<mapsto> ''echo hi'', ''/tmp/a=b.sh'' \<mapsto> ''echo ho'']
         None (Some [''vm1=/tmp/exists.sh'', ''vm1=/tmp/a=b.sh'']) =
       Inr \<lparr>scripts_global = [], scripts_instances = [(''vm1'', ''echo ho'')]\<rparr>
   \<and> list_all (\<lambda>t. CHR ''='' \<in> set t \<longrightarrow>
          [''/tmp/exists.sh'' \<mapsto> ''echo hi'', ''/tmp/a=b.sh'' \<mapsto> ''echo ho''] (token_path t) \<noteq> None)
         [''vm1=/tmp/exists.sh'', ''vm1=/tmp/a=b.sh'']
   \<and> (\<exists>g i. compose_user_scripts [''linux'', ''windows'']
         [''/tmp/exists.sh'' \<mapsto> ''echo hi'', ''/tmp/a=b.sh'' \<mapsto> ''echo ho'']
         None (Some [''vm1=/tmp/exists.sh'', ''vm1=/tmp/a=b.sh'']) =
           Inr \<lparr>scripts_global = g, scripts_instances = i\<rparr>
        \<and> map_of i ''vm1'' = Some ''echo ho'')"
proof -
  let ?os = "[''linux'', ''windows'']"
  let ?fs = "[''/tmp/exists.sh'' \<mapsto> ''echo hi'']"
  let ?fs2 = "[''/tmp/exists.sh'' \<mapsto> ''echo hi'', ''/tmp/a=b.sh'' \<mapsto> ''echo ho'']"
  note t = compose_user_scripts_tokens
  note skip = t [THEN conjunct2, THEN conjunct1, THEN mp, THEN conjunct1]
  note bad_os = t [THEN conjunct2, THEN conjunct2, THEN conjunct1, THEN mp]
  note no_file = t [THEN conjunct2, THEN conjunct2, THEN conjunct2, THEN conjunct1, THEN mp]
  note store = t [THEN conjunct2, THEN conjunct2, THEN conjunct2, THEN conjunct2, THEN conjunct1, THEN mp]
  note inst_store = t [THEN conjunct2, THEN conjunct2, THEN conjunct2, THEN conjunct2, THEN conjunct2,
                       THEN conjunct2, THEN conjunct1, THEN mp]
  note whole = t [THEN conjunct2, THEN conjunct2, THEN conjunct2, THEN conjunct2, THEN conjunct2,
                  THEN conjunct2, THEN conjunct2, THEN conjunct2, THEN conjunct1]
  note all_valid = t [THEN conjunct2, THEN conjunct2, THEN conjunct2, THEN conjunct2, THEN conjunct2,
                      THEN conjunct2, THEN conjunct2, THEN conjunct2, THEN conjunct2, THEN mp]
  have h1: "CHR ''='' \<notin> set ''junk''" by simp
  have h2: "''linux'' \<in> set ?os" by simp
  have h3: "''bogusOS'' \<notin> set ?os" by simp
  have e1: "''linux=/tmp/exists.sh'' = ''linux'' @ CHR ''='' # ''/tmp/exists.sh''" by simp
  have e2: "''linux=/no/such/file'' = ''linux'' @ CHR ''='' # ''/no/such/file''" by simp
  have e3: "''bogusOS=/tmp/exists.sh'' = ''bogusOS'' @ CHR ''='' # ''/tmp/exists.sh''" by simp
  have e4: "''vm1=/tmp/exists.sh'' = ''vm1'' @ CHR ''='' # ''/tmp/exists.sh''" by simp
  have e5: "''vm1=/tmp/a=b.sh'' = ''vm1'' @ CHR ''='' # ''/tmp/a=b.sh''" by simp
  have "global_loop ?os ?fs [] [''junk'', ''linux=/tmp/exists.sh''] =
          global_loop ?os ?fs [] [''linux=/tmp/exists.sh'']"
    by (rule skip) (rule h1)
  also have "\<dots> = global_loop ?os ?fs (AList.update ''linux'' ''echo hi'' []) []"
    unfolding e1 by (rule store) simp
  finally have 1: "global_loop ?os ?fs [] [''junk'', ''linux=/tmp/exists.sh''] = Inr [(''linux'', ''echo hi'')]"
    by simp
  have "global_loop ?os ?fs [] [''linux=/no/such/file''] =
          Inl (ValueError (''Could not find '' @ ''/no/such/file''))"
    unfolding e2 by (rule no_file) simp
  then have 2: "global_loop ?os ?fs [] [''linux=/no/such/file''] =
                  Inl (ValueError ''Could not find /no/such/file'')"
    by simp
  have "global_loop ?os ?fs [] [''bogusOS=/tmp/exists.sh''] =
          Inl (ValueError (''Invalid OS '' @ ''bogusOS'' @ ''. Available options are: '' @ str_join '', '' ?os))"
    unfolding e3 by (rule bad_os) simp
  then have 3: "global_loop ?os ?fs [] [''bogusOS=/tmp/exists.sh''] =
             Inl (ValueError ''Invalid OS bogusOS. Available options are: linux, windows'')"
    by simp
  have "instance_loop ?fs2 [] [''vm1=/tmp/exists.sh'', ''vm1=/tmp/a=b.sh''] =
          instance_loop ?fs2 (AList.update ''vm1'' ''echo hi'' []) [''vm1=/tmp/a=b.sh'']"
    unfolding e4 by (rule inst_store) simp
  also have "\<dots> = instance_loop ?fs2 (AList.update ''vm1'' ''echo ho'' (AList.update ''vm1'' ''echo hi'' [])) []"
    unfolding e5 by (rule inst_store) simp
  finally have 4: "instance_loop ?fs2 [] [''vm1=/tmp/exists.sh'', ''vm1=/tmp/a=b.sh''] = Inr [(''vm1'', ''echo ho'')]"
    by simp
  have n1: "instance_loop ?fs [] (list_or_empty None) = Inr []" by (simp add: list_or_empty_def)
  have n2: "global_loop ?os ?fs2 [] (list_or_empty None) = Inr []" by (simp add: list_or_empty_def)
  have l: "\<And>xs :: string list. list_or_empty (Some xs) = xs" by (simp add: list_or_empty_def)
  have c1: "compose_user_scripts ?os ?fs (Some [''junk'', ''linux=/tmp/exists.sh'']) None =
       Inr \<lparr>scripts_global = [(''linux'', ''echo hi'')], scripts_instances = []\<rparr>"
    by (simp only: whole l 1 n1 sum.case)
  have c2: "compose_user_scripts ?os ?fs (Some [''linux=/no/such/file'']) None =
       Inl (ValueError ''Could not find /no/such/file'')"
    by (simp only: whole l 2 n1 sum.case)
  have c3: "compose_user_scripts ?os ?fs (Some [''bogusOS=/tmp/exists.sh'']) None =
       Inl (ValueError ''Invalid OS bogusOS. Available options are: linux, windows'')"
    by (simp only: whole l 3 n1 sum.case)
  have c4: "compose_user_scripts ?os ?fs2 None (Some [''vm1=/tmp/exists.sh'', ''vm1=/tmp/a=b.sh'']) =
       Inr \<lparr>scripts_global = [], scripts_instances = [(''vm1'', ''echo ho'')]\<rparr>"
    by (simp only: whole l 4 n2 sum.case)
  let ?is = "Some [''vm1=/tmp/exists.sh'', ''vm1=/tmp/a=b.sh'']"
  have p1: "token_path ''vm1=/tmp/exists.sh'' = ''/tmp/exists.sh''"
    and p2: "token_path ''vm1=/tmp/a=b.sh'' = ''/tmp/a=b.sh''"
    and k1: "token_key ''vm1=/tmp/exists.sh'' = ''vm1''"
    and k2: "token_key ''vm1=/tmp/a=b.sh'' = ''vm1''"
    by (simp_all add: token_path_def token_key_def)
  have v: "list_all (\<lambda>t. CHR ''='' \<in> set t \<longrightarrow> ?fs2 (token_path t) \<noteq> None)
             [''vm1=/tmp/exists.sh'', ''vm1=/tmp/a=b.sh'']"
    by (simp add: p1 p2)
  have vg: "list_all (\<lambda>t. CHR ''='' \<in> set t \<longrightarrow> token_key t \<in> set ?os \<and> ?fs2 (token_path t) \<noteq> None)
             (list_or_empty None)"
    by (simp add: list_or_empty_def)
  have vi: "list_all (\<lambda>t. CHR ''='' \<in> set t \<longrightarrow> ?fs2 (token_path t) \<noteq> None) (list_or_empty ?is)"
    using v by (simp only: l)
  have "\<exists>g i. compose_user_scripts ?os ?fs2 None ?is = Inr \<lparr>scripts_global = g, scripts_instances = i\<rparr>
          \<and> map_of g = map_of (rev (script_pairs ?fs2 (list_or_empty None)))
          \<and> map_of i = map_of (rev (script_pairs ?fs2 (list_or_empty ?is)))"
    using vg vi by (intro all_valid conjI)
  then obtain g i where gi: "compose_user_scripts ?os ?fs2 None ?is = Inr \<lparr>scripts_global = g, scripts_instances = i\<rparr>
          \<and> map_of g = map_of (rev (script_pairs ?fs2 (list_or_empty None)))
          \<and> map_of i = map_of (rev (script_pairs ?fs2 (list_or_empty ?is)))"
    by (elim exE) (rule that)
  have sp: "script_pairs ?fs2 (list_or_empty ?is) = [(''vm1'', ''echo hi''), (''vm1'', ''echo ho'')]"
    by (simp add: script_pairs_def l p1 p2 k1 k2)
  from gi have "map_of i = map_of (rev (script_pairs ?fs2 (list_or_empty ?is)))" by (elim conjE)
  then have "map_of i ''vm1'' = Some ''echo ho''" by (simp add: sp)
  moreover from gi have "compose_user_scripts ?os ?fs2 None ?is = Inr \<lparr>scripts_global = g, scripts_instances = i\<rparr>"
    by (elim conjE)
  ultimately have c5: "\<exists>g i. compose_user_scripts ?os ?fs2 None ?is =
           Inr \<lparr>scripts_global = g, scripts_instances = i\<rparr>
        \<and> map_of i ''vm1'' = Some ''echo ho''"
    by (intro exI [of _ g] exI [of _ i] conjI)
  from h1 h2 h3 c1 c2 c3 c4 v c5 show ?thesis by (intro conjI)
qed

section \<open>\<open>format_json_for_object_property\<close> (claim C7)\<close>

text \<open>
  C7. When the attribute is missing or is \<open>None\<close> the result is the text \<open>{}\<close>, and
  nothing is raised. When the attribute holds a value that is no dict and has \<open>to_dict\<close>,
  the result is \<open>json.dumps\<close> with indent 2 of what \<open>to_dict()\<close> returns; a dict, and a
  value without \<open>to_dict\<close>, is given to \<open>json.dumps\<close> with indent 2 as it is.
\<close>

theorem format_json_for_object_property_cases:
  "(obj prop_name = None \<or> obj prop_name = Some None \<longrightarrow>
      format_json_for_object_property isinstance_dict to_dict json_dumps obj prop_name = Inr ''{}'')
   \<and> (obj prop_name = Some (Some p) \<and> \<not> isinstance_dict p \<and> to_dict p = Some d \<longrightarrow>
      format_json_for_object_property isinstance_dict to_dict json_dumps obj prop_name = json_dumps d 2)
   \<and> (obj prop_name = Some (Some p) \<and> (isinstance_dict p \<or> to_dict p = None) \<longrightarrow>
      format_json_for_object_property isinstance_dict to_dict json_dumps obj prop_name = json_dumps p 2)"
  by (auto simp: format_json_for_object_property_def)

text \<open>
  The theorem at objects numbered 0 and 1: 0 is an API object whose \<open>to_dict()\<close> returns 1,
  and 1 is the dict \<open>{"a": 1}\<close>, which the serializer writes on three lines. The attribute
  \<open>info\<close> holds the object 0, or \<open>None\<close>; the attribute \<open>transfer_result\<close> is missing.
\<close>

theorem format_json_for_object_property_witness:
  "format_json_for_object_property (\<lambda>p. p = (1::nat)) (\<lambda>p. if p = 0 then Some 1 else None)
       (\<lambda>p n. if p = 1 \<and> n = 2
              then Inr (''{'' @ [CHR 0x0A] @ ''  '' @ [CHR 0x22] @ ''a'' @ [CHR 0x22] @ '': 1'' @ [CHR 0x0A] @ ''}'')
              else Inl (TypeError ''Object is not JSON serializable''))
       [''info'' \<mapsto> Some 0] ''info''
     = Inr (''{'' @ [CHR 0x0A] @ ''  '' @ [CHR 0x22] @ ''a'' @ [CHR 0x22] @ '': 1'' @ [CHR 0x0A] @ ''}'')
   \<and> format_json_for_object_property (\<lambda>p. p = (1::nat)) (\<lambda>p. if p = 0 then Some 1 else None)
       (\<lambda>p n. Inl (TypeError ''Object is not JSON serializable''))
       [''info'' \<mapsto> None] ''info'' = Inr ''{}''
   \<and> format_json_for_object_property (\<lambda>p. p = (1::nat)) (\<lambda>p. if p = 0 then Some 1 else None)
       (\<lambda>p n. Inl (TypeError ''Object is not JSON serializable''))
       [''info'' \<mapsto> None] ''transfer_result'' = Inr ''{}''"
proof -
  let ?isd = "\<lambda>p. p = (1::nat)"
  let ?td = "\<lambda>p::nat. if p = 0 then Some (1::nat) else None"
  let ?dumps = "\<lambda>(p::nat) (n::nat). if p = 1 \<and> n = 2
              then Inr (''{'' @ [CHR 0x0A] @ ''  '' @ [CHR 0x22] @ ''a'' @ [CHR 0x22] @ '': 1'' @ [CHR 0x0A] @ ''}'')
              else Inl (TypeError ''Object is not JSON serializable'')"
  let ?fail = "\<lambda>(p::nat) (n::nat). (Inl (TypeError ''Object is not JSON serializable'') :: pyexc + string)"
  note t = format_json_for_object_property_cases
  have a: "format_json_for_object_property ?isd ?td ?dumps [''info'' \<mapsto> Some 0] ''info'' = ?dumps 1 2"
    by (rule t [where p = 0, THEN conjunct2, THEN conjunct1, THEN mp]) simp
  have b: "format_json_for_object_property ?isd ?td ?fail [''info'' \<mapsto> None] ''info'' = Inr ''{}''"
    by (rule t [THEN conjunct1, THEN mp]) simp
  have c: "format_json_for_object_property ?isd ?td ?fail [''info'' \<mapsto> None] ''transfer_result'' = Inr ''{}''"
    by (rule t [THEN conjunct1, THEN mp]) simp
  from a have a': "format_json_for_object_property ?isd ?td ?dumps [''info'' \<mapsto> Some 0] ''info''
     = Inr (''{'' @ [CHR 0x0A] @ ''  '' @ [CHR 0x22] @ ''a'' @ [CHR 0x22] @ '': 1'' @ [CHR 0x0A] @ ''}'')"
    by simp
  from a' b c show ?thesis by (intro conjI)
qed

section \<open>\<open>get_option_value_from_args\<close> (claim C1)\<close>

text \<open>
  When neither flag gave text (the value is \<open>None\<close> or empty, the file is \<open>None\<close> or
  empty), the call raises the \<open>ValueError\<close> "No '--name[-file]' parameter was provided."
  if \<open>error_on_no_value\<close> is true and returns \<open>None\<close> if it is false.
\<close>

lemma get_option_value_no_raw_text:
  assumes "args (str_replace ''-'' ''_'' name) = Some raw_arg"
    and "args (str_replace ''-'' ''_'' name @ ''_file'') = Some file_arg"
    and "\<not> truthy raw_arg" and "file_arg = None \<or> file_arg = Some []"
  shows "get_option_value_from_args json_loads args name True =
           Inl (ValueError (''No '' @ sq @ ''--'' @ str_replace ''_'' ''-'' (str_replace ''-'' ''_'' name)
                            @ ''[-file]'' @ sq @ '' parameter was provided.''))
       \<and> get_option_value_from_args json_loads args name False = Inr JNull"
  using assms
  by (auto simp: get_option_value_from_args_def Let_def truthy_def split: option.splits)

text \<open>
  C1: what the code does where the claim fails. When a flag did give text (the value, or
  else the file's text, not empty) and the text parses as JSON to a value that is false
  in Python (\<open>null\<close>, \<open>false\<close>, \<open>0\<close>, \<open>0.0\<close>, \<open>""\<close>, \<open>[]\<close> or \<open>{}\<close>), the call with
  \<open>error_on_no_value\<close> true still raises "No '--name[-file]' parameter was provided.";
  with \<open>error_on_no_value\<close> false it returns the parsed value.
\<close>

theorem get_option_value_falsy_json_reported_missing:
  assumes "args (str_replace ''-'' ''_'' name) = Some raw_arg"
    and "args (str_replace ''-'' ''_'' name @ ''_file'') = Some file_arg"
    and "raw_arg = Some raw \<or> (\<not> truthy raw_arg \<and> file_arg = Some raw)"
    and "raw \<noteq> []"
    and "json_loads raw = Inr v" and "\<not> jval_truthy v"
  shows "get_option_value_from_args json_loads args name True =
           Inl (ValueError (''No '' @ sq @ ''--'' @ str_replace ''_'' ''-'' (str_replace ''-'' ''_'' name)
                            @ ''[-file]'' @ sq @ '' parameter was provided.''))
       \<and> get_option_value_from_args json_loads args name False = Inr v"
  using assms
  by (auto simp: get_option_value_from_args_def Let_def truthy_def)

text \<open>
  The theorem at \<open>--destination-environment '{}'\<close>: the empty object was given, and the
  call that requires a value reports that no parameter was provided.
\<close>

theorem get_option_value_empty_object_witness:
  "get_option_value_from_args
      (\<lambda>s. if s = ''{}'' then Inr (JDict []) else Inl ''Expecting value: line 1 column 1 (char 0)'')
      [''destination_environment'' \<mapsto> Some ''{}'', ''destination_environment_file'' \<mapsto> None]
      ''destination-environment'' True
    = Inl (ValueError (''No '' @ sq @ ''--destination-environment[-file]'' @ sq @ '' parameter was provided.''))
   \<and> get_option_value_from_args
      (\<lambda>s. if s = ''{}'' then Inr (JDict []) else Inl ''Expecting value: line 1 column 1 (char 0)'')
      [''destination_environment'' \<mapsto> Some ''{}'', ''destination_environment_file'' \<mapsto> None]
      ''destination-environment'' False
    = Inr (JDict [])"
proof -
  let ?loads = "\<lambda>s. if s = ''{}'' then Inr (JDict []) else Inl ''Expecting value: line 1 column 1 (char 0)''"
  let ?args = "[''destination_environment'' \<mapsto> Some ''{}'', ''destination_environment_file'' \<mapsto> None]"
  have n1: "str_replace ''-'' ''_'' ''destination-environment'' = ''destination_environment''"
    by (simp add: str_replace_char)
  have n2: "str_replace ''_'' ''-'' ''destination_environment'' = ''destination-environment''"
    by (simp add: str_replace_char)
  have 1: "?args (str_replace ''-'' ''_'' ''destination-environment'') = Some (Some ''{}'')"
    unfolding n1 by simp
  have 2: "?args (str_replace ''-'' ''_'' ''destination-environment'' @ ''_file'') = Some None"
    unfolding n1 by simp
  have 3: "Some ''{}'' = Some ''{}'' \<or> (\<not> truthy (Some ''{}'') \<and> None = Some ''{}'')" by simp
  have 4: "''{}'' \<noteq> []" by simp
  have 5: "?loads ''{}'' = Inr (JDict [])" by simp
  have 6: "\<not> jval_truthy (JDict [])" by simp
  from get_option_value_falsy_json_reported_missing [of ?args "''destination-environment''"
         "Some ''{}''" None "''{}''" ?loads "JDict []", OF 1 2 3 4 5 6]
  show ?thesis unfolding n1 n2 by simp
qed

section \<open>Hexadecimal text and the fields of a UUID\<close>

lemma char_lower_hex_table:
  "map char_lower ''0123456789abcdefABCDEF'' = ''0123456789abcdefabcdef''"
  by (simp add: char_lower_def)

lemma hex_digit_value_table:
  "map hex_digit_value ''0123456789abcdef'' =
     map Some [0, 1, 2, 3, 4, 5, 6, 7, 8, 9, 10, 11, 12, 13, 14, 15]"
  by (simp add: hex_digit_value_def)

lemma char_lower_hex:
  assumes "c \<in> set ''0123456789abcdefABCDEF''"
  shows "char_lower c \<in> set ''0123456789abcdef''"
proof -
  from assms have "char_lower c \<in> set (map char_lower ''0123456789abcdefABCDEF'')"
    by (simp only: set_map image_eqI)
  then have "char_lower c \<in> set ''0123456789abcdefabcdef''"
    by (simp only: char_lower_hex_table)
  then show ?thesis by auto
qed

lemma hex_digit_value_lower_hex:
  assumes "c \<in> set ''0123456789abcdef''"
  shows "\<exists>d. hex_digit_value c = Some d \<and> d < 16"
proof -
  from assms have "hex_digit_value c \<in> set (map hex_digit_value ''0123456789abcdef'')"
    by (simp only: set_map image_eqI)
  then have "hex_digit_value c \<in> set (map Some [0, 1, 2, 3, 4, 5, 6, 7, 8, 9, 10, 11, 12, 13, 14, 15])"
    by (simp only: hex_digit_value_table)
  then show ?thesis by auto
qed

lemma str_lower_hex:
  "is_hex s \<Longrightarrow> set (str_lower s) \<subseteq> set ''0123456789abcdef''"
  unfolding is_hex_def str_lower_def list_all_iff
  using char_lower_hex by (auto simp only: set_map)

lemma hex_value_from_bound:
  "set s \<subseteq> set ''0123456789abcdef'' \<Longrightarrow>
   \<exists>v. hex_value_from acc s = Some v \<and> v < (acc + 1) * 16 ^ length s"
proof (induction s arbitrary: acc)
  case Nil
  then show ?case by simp
next
  case (Cons c cs)
  from Cons.prems have c: "c \<in> set ''0123456789abcdef''" and cs: "set cs \<subseteq> set ''0123456789abcdef''"
    by (simp_all only: set_simps insert_subset)
  from hex_digit_value_lower_hex [OF c] obtain d where d: "hex_digit_value c = Some d" "d < 16"
    by blast
  from Cons.IH [OF cs, of "16 * acc + d"] obtain v
    where v: "hex_value_from (16 * acc + d) cs = Some v" "v < (16 * acc + d + 1) * 16 ^ length cs"
    by blast
  from d(2) have "16 * acc + d + 1 \<le> (acc + 1) * 16" by simp
  then have "(16 * acc + d + 1) * 16 ^ length cs \<le> ((acc + 1) * 16) * 16 ^ length cs"
    by (rule mult_le_mono1)
  with v(2) have "v < ((acc + 1) * 16) * 16 ^ length cs" by (rule less_le_trans)
  then have "v < (acc + 1) * 16 ^ length (c # cs)" by (simp only: length_Cons power_Suc mult.assoc)
  with v(1) d(1) show ?case by simp
qed

lemma plain_hex_bound:
  assumes "set s \<subseteq> set ''0123456789abcdef''" and "s \<noteq> []"
  shows "\<exists>v. plain_hex s = Some v \<and> 0 \<le> v \<and> v < 16 ^ length s"
proof -
  from hex_value_from_bound [OF assms(1), of 0] obtain n
    where n: "hex_value_from 0 s = Some n" "n < 16 ^ length s" by auto
  from n(2) have "int n < int (16 ^ length s)" by (simp only: of_nat_less_iff)
  then have "int n < 16 ^ length s" by simp
  with n(1) assms(2) show ?thesis by (simp add: plain_hex_def)
qed

lemma char_lower_hyphen: "char_lower (CHR ''-'') = CHR ''-''"
  by (simp add: char_lower_def)

lemma canonical_uuid_text_parts:
  assumes "canonical_uuid_text s"
  shows "\<exists>a b c d e. s = a @ CHR ''-'' # b @ CHR ''-'' # c @ CHR ''-'' # d @ CHR ''-'' # e
          \<and> length a = 8 \<and> length b = 4 \<and> length c = 4 \<and> length d = 4 \<and> length e = 12
          \<and> is_hex a \<and> is_hex b \<and> is_hex c \<and> is_hex d \<and> is_hex e"
proof -
  from assms have len: "length s = 36"
    and s8: "s ! 8 = CHR ''-''" and s13: "s ! 13 = CHR ''-''"
    and s18: "s ! 18 = CHR ''-''" and s23: "s ! 23 = CHR ''-''"
    and h: "is_hex (take 8 s)" "is_hex (take 4 (drop 9 s))" "is_hex (take 4 (drop 14 s))"
      "is_hex (take 4 (drop 19 s))" "is_hex (drop 24 s)"
    by (simp_all add: canonical_uuid_text_def)
  have 1: "s = take 8 s @ s ! 8 # drop 9 s"
    using id_take_nth_drop [of 8 s] len by simp
  have 2: "drop 9 s = take 4 (drop 9 s) @ s ! 13 # drop 14 s"
    using id_take_nth_drop [of 4 "drop 9 s"] len by simp
  have 3: "drop 14 s = take 4 (drop 14 s) @ s ! 18 # drop 19 s"
    using id_take_nth_drop [of 4 "drop 14 s"] len by simp
  have 4: "drop 19 s = take 4 (drop 19 s) @ s ! 23 # drop 24 s"
    using id_take_nth_drop [of 4 "drop 19 s"] len by simp
  have "s = take 8 s @ CHR ''-'' # take 4 (drop 9 s) @ CHR ''-'' # take 4 (drop 14 s) @ CHR ''-''
              # take 4 (drop 19 s) @ CHR ''-'' # drop 24 s"
    using 1 2 3 4 s8 s13 s18 s23 by metis
  moreover have "length (take 8 s) = 8" "length (take 4 (drop 9 s)) = 4"
    "length (take 4 (drop 14 s)) = 4" "length (take 4 (drop 19 s)) = 4" "length (drop 24 s) = 12"
    using len by simp_all
  ultimately show ?thesis using h by blast
qed

lemma str_replace_sep_absent: "c \<notin> set a \<Longrightarrow> str_replace [c] [] a = a"
  by (induction a) (auto simp: str_replace_char)

lemma filter_sep_absent: "c \<notin> set a \<Longrightarrow> filter (\<lambda>x. x \<noteq> c) a = a"
  by (induction a) auto

lemma str_replace_sep_append:
  "c \<notin> set a \<Longrightarrow> str_replace [c] [] (a @ c # r) = a @ str_replace [c] [] r"
  by (induction a) (auto simp: str_replace_char)

lemma uuid_UUID_canonical_lower:
  assumes i: "int16_reads_hex int16"
    and a: "set a \<subseteq> set ''0123456789abcdef''" "length a = 8"
    and b: "set b \<subseteq> set ''0123456789abcdef''" "length b = 4"
    and c: "set c \<subseteq> set ''0123456789abcdef''" "length c = 4"
    and d: "set d \<subseteq> set ''0123456789abcdef''" "length d = 4"
    and e: "set e \<subseteq> set ''0123456789abcdef''" "length e = 12"
  shows "\<exists>v. plain_hex (a @ b @ c @ d @ e) = Some v \<and> 0 \<le> v \<and> v < 2 ^ 128
          \<and> uuid_UUID int16 (a @ CHR ''-'' # b @ CHR ''-'' # c @ CHR ''-'' # d @ CHR ''-'' # e) version =
              (case version of
                 None \<Rightarrow> Inr v
               | Some ver \<Rightarrow>
                   if 1 \<le> ver \<and> ver \<le> 5 then Inr (uuid_set_version v ver)
                   else Inl (ValueError ''illegal version number''))"
proof -
  let ?x = "a @ CHR ''-'' # b @ CHR ''-'' # c @ CHR ''-'' # d @ CHR ''-'' # e"
  let ?h = "a @ b @ c @ d @ e"
  have colon: "CHR '':'' \<notin> set ?x"
    using a(1) b(1) c(1) d(1) e(1) by auto
  have brace: "set ?x \<inter> set ''{}'' = {}"
    using a(1) b(1) c(1) d(1) e(1) by auto
  have hy: "CHR ''-'' \<notin> set a" "CHR ''-'' \<notin> set b" "CHR ''-'' \<notin> set c"
    "CHR ''-'' \<notin> set d" "CHR ''-'' \<notin> set e"
    using a(1) b(1) c(1) d(1) e(1) by auto
  have r1: "str_replace ''urn:'' [] ?x = ?x"
    by (rule str_replace_absent) (use colon in auto)
  have r2: "str_replace ''uuid:'' [] ?x = ?x"
    by (rule str_replace_absent) (use colon in auto)
  have r3: "str_strip ''{}'' ?x = ?x"
    using brace by (rule str_strip_id)
  have r4: "str_replace ''-'' [] ?x = ?h"
    by (simp only: str_replace_sep_append [OF hy(1)] str_replace_sep_append [OF hy(2)]
          str_replace_sep_append [OF hy(3)] str_replace_sep_append [OF hy(4)]
          str_replace_sep_absent [OF hy(5)])
  have len: "length ?h = 32" using a(2) b(2) c(2) d(2) e(2) by simp
  have hex: "set ?h \<subseteq> set ''0123456789abcdef''"
    using a(1) b(1) c(1) d(1) e(1) by (simp only: set_append Un_subset_iff)
  have ne: "?h \<noteq> []" using len by auto
  from plain_hex_bound [OF hex ne] obtain v
    where v: "plain_hex ?h = Some v" "0 \<le> v" "v < 16 ^ length ?h" by blast
  have "(16::int) ^ 32 = 2 ^ 128" by simp
  with v(3) len have v128: "v < 2 ^ 128" by simp
  from i v(1) have i16: "int16 ?h = Inr v" by (simp add: int16_reads_hex_def)
  have "uuid_UUID int16 ?x version =
              (case version of
                 None \<Rightarrow> Inr v
               | Some ver \<Rightarrow>
                   if 1 \<le> ver \<and> ver \<le> 5 then Inr (uuid_set_version v ver)
                   else Inl (ValueError ''illegal version number''))"
    unfolding uuid_UUID_def Let_def r1 r2 r3 r4
    using len i16 v(2) v128 by (simp split: option.splits)
  with v(1,2) v128 show ?thesis by blast
qed

lemma validate_uuid_string_canonical:
  assumes "int16_reads_hex int16" and "canonical_uuid_text s"
  shows "\<exists>v. plain_hex (filter (\<lambda>c. c \<noteq> CHR ''-'') (str_lower s)) = Some v
          \<and> 0 \<le> v \<and> v < 2 ^ 128
          \<and> uuid_UUID int16 (str_lower s) (Some 4) = Inr (uuid_set_version v 4)
          \<and> validate_uuid_string int16 s (Some 4) = Inr True"
proof -
  from canonical_uuid_text_parts [OF assms(2)] obtain a b c d e where
    s: "s = a @ CHR ''-'' # b @ CHR ''-'' # c @ CHR ''-'' # d @ CHR ''-'' # e"
    and l: "length a = 8" "length b = 4" "length c = 4" "length d = 4" "length e = 12"
    and h: "is_hex a" "is_hex b" "is_hex c" "is_hex d" "is_hex e"
    by blast
  let ?a = "str_lower a" and ?b = "str_lower b" and ?c = "str_lower c"
  let ?d = "str_lower d" and ?e = "str_lower e"
  have low: "str_lower s = ?a @ CHR ''-'' # ?b @ CHR ''-'' # ?c @ CHR ''-'' # ?d @ CHR ''-'' # ?e"
    unfolding s by (simp add: str_lower_def char_lower_hyphen)
  have hs: "set ?a \<subseteq> set ''0123456789abcdef''" "set ?b \<subseteq> set ''0123456789abcdef''"
    "set ?c \<subseteq> set ''0123456789abcdef''" "set ?d \<subseteq> set ''0123456789abcdef''"
    "set ?e \<subseteq> set ''0123456789abcdef''"
    using h by (simp_all only: str_lower_hex)
  have ls: "length ?a = 8" "length ?b = 4" "length ?c = 4" "length ?d = 4" "length ?e = 12"
    using l by (simp_all add: str_lower_def)
  from uuid_UUID_canonical_lower [OF assms(1) hs(1) ls(1) hs(2) ls(2) hs(3) ls(3) hs(4) ls(4) hs(5) ls(5),
      of "Some 4"]
  obtain v where v: "plain_hex (?a @ ?b @ ?c @ ?d @ ?e) = Some v" "0 \<le> v" "v < 2 ^ 128"
    "uuid_UUID int16 (str_lower s) (Some 4) = Inr (uuid_set_version v 4)"
    unfolding low by auto
  have hy: "CHR ''-'' \<notin> set ?a" "CHR ''-'' \<notin> set ?b" "CHR ''-'' \<notin> set ?c"
    "CHR ''-'' \<notin> set ?d" "CHR ''-'' \<notin> set ?e"
    using hs by auto
  have f: "filter (\<lambda>c. c \<noteq> CHR ''-'') (str_lower s) = ?a @ ?b @ ?c @ ?d @ ?e"
    unfolding low using hy by (simp add: filter_sep_absent)
  have "validate_uuid_string int16 s (Some 4) = Inr True"
    by (simp add: validate_uuid_string_def v(4))
  with v f show ?thesis by simp
qed

lemma uuid_variant_clear_mask: "push_bit 48 (0xc000::int) = push_bit 62 (mask 2)"
  by (simp add: push_bit_eq_mult mask_eq_exp_minus_1)

lemma uuid_variant_set_bit: "push_bit 48 (0x8000::int) = push_bit 63 1"
  by (simp add: push_bit_eq_mult)

lemma uuid_version_clear_mask: "push_bit 64 (0xf000::int) = push_bit 76 (mask 4)"
  by (simp add: push_bit_eq_mult mask_eq_exp_minus_1)

lemma uuid_version_field_mask: "(0xf::int) = mask 4"
  by (simp add: mask_eq_exp_minus_1)

lemma uuid_set_version_masks:
  "uuid_set_version i v =
     or (and (or (and i (not (push_bit 62 (mask 2)))) (push_bit 63 1)) (not (push_bit 76 (mask 4))))
        (push_bit 76 v)"
  by (simp only: uuid_set_version_def Let_def uuid_variant_clear_mask uuid_variant_set_bit uuid_version_clear_mask)

lemma bit_bound_iff: "take_bit N (a::int) = a \<longleftrightarrow> (\<forall>n. bit a n \<longrightarrow> n < N)"
  by (auto simp: bit_eq_iff bit_take_bit_iff)

lemma set_field:
  assumes "take_bit w (v::int) = v"
  shows "and (drop_bit k (or (and y (not (push_bit k (mask w)))) (push_bit k v))) (mask w) = v"
proof (rule bit_eqI)
  fix n
  from assms have "bit v n \<longrightarrow> n < w" by (simp add: bit_bound_iff)
  then show "bit (and (drop_bit k (or (and y (not (push_bit k (mask w)))) (push_bit k v))) (mask w)) n
        \<longleftrightarrow> bit v n"
    by (auto simp: bit_simps)
qed

lemma in_range_and:
  assumes "take_bit N (a::int) = a"
  shows "take_bit N (and a b) = and a b"
proof (rule bit_eqI)
  fix n
  from assms have "bit a n \<longrightarrow> n < N" by (simp add: bit_bound_iff)
  then show "bit (take_bit N (and a b)) n \<longleftrightarrow> bit (and a b) n"
    by (auto simp: bit_simps)
qed

lemma in_range_or:
  assumes "take_bit N (a::int) = a" and "take_bit N b = b"
  shows "take_bit N (or a b) = or a b"
proof (rule bit_eqI)
  fix n
  from assms have "bit a n \<longrightarrow> n < N" "bit b n \<longrightarrow> n < N" by (simp_all add: bit_bound_iff)
  then show "bit (take_bit N (or a b)) n \<longleftrightarrow> bit (or a b) n"
    by (auto simp: bit_simps)
qed

lemma in_range_push_bit:
  "take_bit w (v::int) = v \<Longrightarrow> k + w \<le> N \<Longrightarrow> take_bit N (push_bit k v) = push_bit k v"
  by (fastforce simp: bit_bound_iff bit_simps)

lemma in_range_bounds: "take_bit N (a::int) = a \<Longrightarrow> 0 \<le> a \<and> a < 2 ^ N"
  by (metis take_bit_int_less_exp take_bit_nonnegative)

lemma UUID_version_set:
  assumes "0 \<le> v" and "v < 16"
  shows "UUID_version (uuid_set_version i v) = v"
proof -
  from assms have "take_bit 4 v = v" by (simp add: take_bit_int_eq_self)
  then show ?thesis
    unfolding UUID_version_def uuid_set_version_masks uuid_version_field_mask by (rule set_field)
qed

lemma uuid_set_version_range:
  assumes "0 \<le> i" and "i < 2 ^ 128" and "0 \<le> v" and "v < 16"
  shows "0 \<le> uuid_set_version i v \<and> uuid_set_version i v < 2 ^ 128"
proof -
  from assms have v: "take_bit 4 v = v" by (simp add: take_bit_int_eq_self)
  from assms have i: "take_bit 128 i = i" by (simp add: take_bit_int_eq_self)
  have one: "take_bit 1 (1::int) = 1" by simp
  have q: "take_bit 128 (push_bit 63 (1::int)) = push_bit 63 1"
    using one by (rule in_range_push_bit) simp
  have r: "take_bit 128 (push_bit 76 v) = push_bit 76 v"
    using v by (rule in_range_push_bit) simp
  have "take_bit 128 (uuid_set_version i v) = uuid_set_version i v"
    unfolding uuid_set_version_masks
    by (intro in_range_or in_range_and i q r)
  then show ?thesis by (rule in_range_bounds)
qed

lemma hex_char_lower_hex: "hex_char d \<in> set ''0123456789abcdef''"
  unfolding hex_char_def by (rule nth_mem) simp

lemma hex_digits_lower_hex: "set (hex_digits n) \<subseteq> set ''0123456789abcdef''"
proof (induction n rule: hex_digits.induct)
  case (1 n)
  show ?case
  proof (cases "n < 16")
    case True
    then have "hex_digits n = [hex_char n]" by (simp add: hex_digits.simps)
    then show ?thesis using hex_char_lower_hex [of n]
      by (simp only: set_simps insert_subset empty_subsetI)
  next
    case False
    then have "hex_digits n = hex_digits (n div 16) @ [hex_char (n mod 16)]"
      by (subst hex_digits.simps) simp
    then show ?thesis
      using 1 [OF False] hex_char_lower_hex [of "n mod 16"]
      by (simp only: set_append set_simps Un_subset_iff insert_subset empty_subsetI)
  qed
qed

lemma hex_digits_length: "0 < k \<Longrightarrow> n < 16 ^ k \<Longrightarrow> length (hex_digits n) \<le> k"
proof (induction n arbitrary: k rule: hex_digits.induct)
  case (1 n)
  show ?case
  proof (cases "n < 16")
    case True
    then have "hex_digits n = [hex_char n]" by (simp add: hex_digits.simps)
    with 1(2) show ?thesis by simp
  next
    case False
    then have e: "hex_digits n = hex_digits (n div 16) @ [hex_char (n mod 16)]"
      by (subst hex_digits.simps) simp
    have "k \<noteq> 1" using False 1(3) by auto
    with 1(2) obtain j where j: "k = Suc j" "0 < j" by (cases k) auto
    from 1(3) j have "n < 16 * 16 ^ j" by simp
    then have "n div 16 < 16 ^ j" by (simp add: less_mult_imp_div_less mult.commute)
    from 1(1) [OF False j(2) this] have "length (hex_digits (n div 16)) \<le> j" .
    with e j show ?thesis by simp
  qed
qed

lemma format_032x_shape:
  assumes "0 \<le> i" and "i < 2 ^ 128"
  shows "length (format_032x i) = 32 \<and> set (format_032x i) \<subseteq> set ''0123456789abcdef''"
proof -
  let ?ds = "hex_digits (nat i)"
  have "(2::int) ^ 128 = 16 ^ 32" by simp
  with assms have "i < 16 ^ 32" by simp
  with assms(1) have "nat i < 16 ^ 32" by (simp add: nat_less_iff)
  then have l: "length ?ds \<le> 32" by (rule hex_digits_length [rotated]) simp
  have f: "format_032x i = replicate (32 - length ?ds) (CHR ''0'') @ ?ds"
    using assms(1) by (simp add: format_032x_def Let_def)
  have z: "CHR ''0'' \<in> set ''0123456789abcdef''" by simp
  have "set (replicate (32 - length ?ds) (CHR ''0'')) \<subseteq> {CHR ''0''}"
    by (auto simp: set_replicate_conv_if)
  with z have "set (replicate (32 - length ?ds) (CHR ''0'')) \<subseteq> set ''0123456789abcdef''"
    by blast
  with hex_digits_lower_hex [of "nat i"] have "set (format_032x i) \<subseteq> set ''0123456789abcdef''"
    unfolding f by (simp only: set_append Un_subset_iff)
  moreover from l have "length (format_032x i) = 32" unfolding f by simp
  ultimately show ?thesis by (rule conjI [rotated])
qed

lemma lower_hex_subset: "set ''0123456789abcdef'' \<subseteq> set ''0123456789abcdefABCDEF''"
  by simp

lemma lower_hex_is_hex: "set s \<subseteq> set ''0123456789abcdef'' \<Longrightarrow> is_hex s"
  unfolding is_hex_def list_all_iff using lower_hex_subset by blast

lemma canonical_uuid_textI:
  assumes "length a = 8" "length b = 4" "length c = 4" "length d = 4" "length e = 12"
    and "is_hex a" "is_hex b" "is_hex c" "is_hex d" "is_hex e"
  shows "canonical_uuid_text (a @ CHR ''-'' # b @ CHR ''-'' # c @ CHR ''-'' # d @ CHR ''-'' # e)"
  using assms by (simp add: canonical_uuid_text_def nth_append)

lemma uuid_str_canonical:
  assumes "0 \<le> i" and "i < 2 ^ 128"
  shows "canonical_uuid_text (uuid_str i)"
proof -
  let ?h = "format_032x i"
  from format_032x_shape [OF assms] have l: "length ?h = 32"
    and s: "set ?h \<subseteq> set ''0123456789abcdef''" by (rule conjunct1, rule conjunct2)
  have sub: "is_hex t" if "set t \<subseteq> set ?h" for t
    using that s by (intro lower_hex_is_hex) (rule subset_trans)
  have td: "set (take m (drop n ?h)) \<subseteq> set ?h" for m n
    using set_take_subset [of m "drop n ?h"] set_drop_subset [of n ?h] by (rule subset_trans)
  have u: "uuid_str i = take 8 ?h @ CHR ''-'' # take 4 (drop 8 ?h) @ CHR ''-'' # take 4 (drop 12 ?h)
             @ CHR ''-'' # take 4 (drop 16 ?h) @ CHR ''-'' # drop 20 ?h"
    by (simp add: uuid_str_def Let_def)
  show ?thesis
    unfolding u
  proof (rule canonical_uuid_textI)
    show "length (take 8 ?h) = 8" "length (take 4 (drop 8 ?h)) = 4" "length (take 4 (drop 12 ?h)) = 4"
      "length (take 4 (drop 16 ?h)) = 4" "length (drop 20 ?h) = 12"
      using l by simp_all
    show "is_hex (take 8 ?h)" by (rule sub) (rule set_take_subset)
    show "is_hex (take 4 (drop 8 ?h))" by (rule sub) (rule td)
    show "is_hex (take 4 (drop 12 ?h))" by (rule sub) (rule td)
    show "is_hex (take 4 (drop 16 ?h))" by (rule sub) (rule td)
    show "is_hex (drop 20 ?h)" by (rule sub) (rule set_drop_subset)
  qed
qed

section \<open>\<open>validate_uuid_string\<close> (claims C8 and C10)\<close>

lemma uuid_UUID_raises_ValueError:
  "uuid_UUID int16 hex version = Inl e \<Longrightarrow> \<exists>msg. e = ValueError msg"
  by (auto simp: uuid_UUID_def Let_def split: if_splits sum.splits option.splits)

lemma validate_uuid_string_result:
  "validate_uuid_string int16 s ver =
     Inr (case uuid_UUID int16 (str_lower s) ver of Inr u \<Rightarrow> True | Inl e \<Rightarrow> False)"
proof (cases "uuid_UUID int16 (str_lower s) ver")
  case (Inl e)
  then obtain msg where "e = ValueError msg" using uuid_UUID_raises_ValueError by blast
  with Inl show ?thesis by (simp add: validate_uuid_string_def)
next
  case (Inr u)
  then show ?thesis by (simp add: validate_uuid_string_def)
qed

lemma hex_digits_small: "n < 16 \<Longrightarrow> hex_digits n = [hex_char n]"
  by (simp add: hex_digits.simps)

lemma hex_digits_large: "\<not> n < 16 \<Longrightarrow> hex_digits n = hex_digits (n div 16) @ [hex_char (n mod 16)]"
  by (subst hex_digits.simps) simp

lemma validate_not_a_uuid: "validate_uuid_string int16 ''not-a-uuid'' (Some 4) = Inr False"
proof -
  have l: "str_lower ''not-a-uuid'' = ''not-a-uuid''"
    by (simp add: str_lower_def char_lower_def)
  have r1: "str_replace ''urn:'' [] ''not-a-uuid'' = ''not-a-uuid''"
    by (rule str_replace_absent) simp_all
  have r2: "str_replace ''uuid:'' [] ''not-a-uuid'' = ''not-a-uuid''"
    by (rule str_replace_absent) simp_all
  have r3: "str_strip ''{}'' ''not-a-uuid'' = ''not-a-uuid''"
    by (rule str_strip_id) simp
  have r4: "str_replace ''-'' [] ''not-a-uuid'' = ''notauuid''"
    by (simp add: str_replace_char)
  have "uuid_UUID int16 ''not-a-uuid'' (Some 4) = Inl (ValueError ''badly formed hexadecimal UUID string'')"
    unfolding uuid_UUID_def Let_def r1 r2 r3 r4 by simp
  then show ?thesis by (simp add: validate_uuid_string_def l)
qed

lemma validate_fresh_uuid4:
  assumes "int16_reads_hex int16" and "0 \<le> r" and "r < 2 ^ 128"
  shows "validate_uuid_string int16 (uuid_str (uuid4 r)) (Some 4) = Inr True"
proof -
  have "0 \<le> uuid4 r \<and> uuid4 r < 2 ^ 128"
    unfolding uuid4_def using assms(2,3) by (rule uuid_set_version_range) simp_all
  then have "canonical_uuid_text (uuid_str (uuid4 r))"
    by (intro uuid_str_canonical) simp_all
  with assms(1) show ?thesis
    using validate_uuid_string_canonical by blast
qed

lemma char_lower_upper_table:
  "map char_lower ''ABCDEFGHIJKLMNOPQRSTUVWXYZ'' = ''abcdefghijklmnopqrstuvwxyz''"
  by (simp add: char_lower_def)

lemma char_lower_other:
  assumes "c \<notin> set ''ABCDEFGHIJKLMNOPQRSTUVWXYZ''"
  shows "char_lower c = c"
proof -
  have "fst ` set (zip ''ABCDEFGHIJKLMNOPQRSTUVWXYZ'' ''abcdefghijklmnopqrstuvwxyz'')
          = set (map fst (zip ''ABCDEFGHIJKLMNOPQRSTUVWXYZ'' ''abcdefghijklmnopqrstuvwxyz''))"
    by (simp only: set_map)
  also have "\<dots> = set ''ABCDEFGHIJKLMNOPQRSTUVWXYZ''"
    by (subst map_fst_zip) simp_all
  finally have e: "fst ` set (zip ''ABCDEFGHIJKLMNOPQRSTUVWXYZ'' ''abcdefghijklmnopqrstuvwxyz'')
          = set ''ABCDEFGHIJKLMNOPQRSTUVWXYZ''" .
  have "c \<notin> fst ` set (zip ''ABCDEFGHIJKLMNOPQRSTUVWXYZ'' ''abcdefghijklmnopqrstuvwxyz'')"
    unfolding e by (rule assms)
  then have "map_of (zip ''ABCDEFGHIJKLMNOPQRSTUVWXYZ'' ''abcdefghijklmnopqrstuvwxyz'') c = None"
    by (rule map_of_eq_None_iff [THEN iffD2])
  then show ?thesis by (simp only: char_lower_def option.case)
qed

lemma char_lower_upper_nth:
  assumes "k < 26"
  shows "char_lower (''ABCDEFGHIJKLMNOPQRSTUVWXYZ'' ! k) = ''abcdefghijklmnopqrstuvwxyz'' ! k"
proof -
  have l: "length ''ABCDEFGHIJKLMNOPQRSTUVWXYZ'' = 26" by simp
  from assms have "map char_lower ''ABCDEFGHIJKLMNOPQRSTUVWXYZ'' ! k
      = char_lower (''ABCDEFGHIJKLMNOPQRSTUVWXYZ'' ! k)"
    by (intro nth_map) (simp only: l)
  then show ?thesis by (simp only: char_lower_upper_table)
qed

lemma str_lower_upper_alphabet:
  "str_lower ''ABCDEFGHIJKLMNOPQRSTUVWXYZ'' = ''abcdefghijklmnopqrstuvwxyz''"
  unfolding str_lower_def by (rule char_lower_upper_table)

lemma str_lower_length: "length (str_lower s) = length s"
  by (simp add: str_lower_def)

lemma str_lower_nth: "i < length s \<Longrightarrow> str_lower s ! i = char_lower (s ! i)"
  by (simp add: str_lower_def)

lemma validate_uuid_string_case_insensitive:
  assumes "str_lower s = str_lower t"
  shows "validate_uuid_string int16 s ver = validate_uuid_string int16 t ver"
  using assms by (simp only: validate_uuid_string_def Let_def)

lemma uuid_UUID_upper_case_urn:
  "uuid_UUID int16 ''URN:UUID:123E4567-E89B-12D3-A456-426614174000'' (Some 4)
     = Inl (ValueError ''badly formed hexadecimal UUID string'')"
proof -
  let ?U = "''URN:UUID:123E4567-E89B-12D3-A456-426614174000''"
  have r1: "str_replace ''urn:'' [] ?U = ?U"
    by (rule str_replace_absent) simp_all
  have r2: "str_replace ''uuid:'' [] ?U = ?U"
    by (rule str_replace_absent) simp_all
  have r3: "str_strip ''{}'' ?U = ?U"
    by (rule str_strip_id) simp
  have r4: "str_replace ''-'' [] ?U = ''URN:UUID:123E4567E89B12D3A456426614174000''"
    by (simp add: str_replace_char)
  show ?thesis
    unfolding uuid_UUID_def Let_def r1 r2 r3 r4 by simp
qed

lemma uuid_UUID_urn_prefix:
  "uuid_UUID int16 ''urn:uuid:123e4567-e89b-12d3-a456-426614174000'' version
     = uuid_UUID int16 ''123e4567-e89b-12d3-a456-426614174000'' version"
proof -
  let ?x = "''123e4567-e89b-12d3-a456-426614174000''"
  have a1: "str_replace ''urn:'' [] ''uuid:123e4567-e89b-12d3-a456-426614174000''
      = ''uuid:123e4567-e89b-12d3-a456-426614174000''"
    by (rule str_replace_absent) simp_all
  have a2: "str_replace ''uuid:'' [] ?x = ?x"
    by (rule str_replace_absent) simp_all
  have a3: "str_replace ''urn:'' [] ?x = ?x"
    by (rule str_replace_absent) simp_all
  have r1: "str_replace ''urn:'' [] ''urn:uuid:123e4567-e89b-12d3-a456-426614174000''
      = ''uuid:123e4567-e89b-12d3-a456-426614174000''"
    by (subst str_replace_match) (simp_all add: a1)
  have r2: "str_replace ''uuid:'' [] ''uuid:123e4567-e89b-12d3-a456-426614174000'' = ?x"
    by (subst str_replace_match) (simp_all add: a2)
  show ?thesis
    by (simp only: uuid_UUID_def r1 r2 a3 a2)
qed

lemma validate_upper_case_urn:
  assumes "int16_reads_hex int16"
  shows "validate_uuid_string int16 ''URN:UUID:123E4567-E89B-12D3-A456-426614174000'' (Some 4) = Inr True"
proof -
  let ?x = "''123e4567-e89b-12d3-a456-426614174000''"
  have l: "str_lower ''URN:UUID:123E4567-E89B-12D3-A456-426614174000''
      = ''urn:uuid:123e4567-e89b-12d3-a456-426614174000''"
    by (simp add: str_lower_def char_lower_def)
  have lx: "str_lower ?x = ?x"
    by (simp add: str_lower_def char_lower_def)
  have c: "canonical_uuid_text ?x"
    by (simp add: canonical_uuid_text_def is_hex_def)
  from validate_uuid_string_canonical [OF assms c] obtain v where
    "uuid_UUID int16 (str_lower ?x) (Some 4) = Inr (uuid_set_version v 4)"
    by (elim exE conjE) (rule that)
  then have "uuid_UUID int16 ''urn:uuid:123e4567-e89b-12d3-a456-426614174000'' (Some 4)
      = Inr (uuid_set_version v 4)"
    by (simp only: lx uuid_UUID_urn_prefix)
  then show ?thesis
    by (simp add: validate_uuid_string_def l)
qed

text \<open>
  C8. The validator lower-cases the text and hands it to \<open>UUID(text, version)\<close>. It never
  raises: its result is \<open>True\<close> exactly when the constructor returns and \<open>False\<close>
  exactly when the constructor raises (a \<open>ValueError\<close>, the only exception it raises).
  It is \<open>False\<close> on \<open>not-a-uuid\<close>, whatever \<open>int(text, 16)\<close> does. It is \<open>True\<close> on the
  string of every UUID that \<open>uuid4()\<close> can generate, from any 16 random bytes, given that
  \<open>int(text, 16)\<close> reads hexadecimal digits.

  Lower-casing is what \<open>lower()\<close> does to ASCII text: the alphabet A to Z becomes a to z,
  and in a text of ASCII characters the length is kept, a character that is no capital
  letter stays and the \<open>k\<close>-th capital letter becomes the \<open>k\<close>-th small letter. The
  verdict depends on the lower-cased text only, so two texts that differ in case have the
  same verdict. The lower-casing decides the verdict of
  \<open>URN:UUID:123E4567-E89B-12D3-A456-426614174000\<close>: the constructor refuses this text
  as it stands, whatever \<open>int(text, 16)\<close> does, since it removes the prefixes \<open>urn:\<close>
  and \<open>uuid:\<close> in lower case only; the validator accepts it.
\<close>

theorem validate_uuid_string_total:
  "(\<exists>b. validate_uuid_string int16 s ver = Inr b)
   \<and> (validate_uuid_string int16 s ver = Inr True) = (\<exists>u. uuid_UUID int16 (str_lower s) ver = Inr u)
   \<and> (validate_uuid_string int16 s ver = Inr False) =
       (\<exists>msg. uuid_UUID int16 (str_lower s) ver = Inl (ValueError msg))
   \<and> validate_uuid_string int16 ''not-a-uuid'' (Some 4) = Inr False
   \<and> (int16_reads_hex int16 \<and> 0 \<le> r \<and> r < 2 ^ 128 \<longrightarrow>
        validate_uuid_string int16 (uuid_str (uuid4 r)) (Some 4) = Inr True)
   \<and> str_lower ''ABCDEFGHIJKLMNOPQRSTUVWXYZ'' = ''abcdefghijklmnopqrstuvwxyz''
   \<and> ((\<forall>c \<in> set s. of_char c < (128::nat)) \<longrightarrow>
        length (str_lower s) = length s
        \<and> (\<forall>i < length s.
             (s ! i \<notin> set ''ABCDEFGHIJKLMNOPQRSTUVWXYZ'' \<longrightarrow> str_lower s ! i = s ! i)
             \<and> (\<forall>k < 26. s ! i = ''ABCDEFGHIJKLMNOPQRSTUVWXYZ'' ! k \<longrightarrow>
                   str_lower s ! i = ''abcdefghijklmnopqrstuvwxyz'' ! k)))
   \<and> (str_lower s = str_lower t \<longrightarrow>
        validate_uuid_string int16 s ver = validate_uuid_string int16 t ver)
   \<and> uuid_UUID int16 ''URN:UUID:123E4567-E89B-12D3-A456-426614174000'' (Some 4)
       = Inl (ValueError ''badly formed hexadecimal UUID string'')
   \<and> (int16_reads_hex int16 \<longrightarrow>
        validate_uuid_string int16 ''URN:UUID:123E4567-E89B-12D3-A456-426614174000'' (Some 4)
          = Inr True)"
proof (intro conjI impI allI)
  show "\<exists>b. validate_uuid_string int16 s ver = Inr b"
    by (simp add: validate_uuid_string_result)
  show "(validate_uuid_string int16 s ver = Inr True) = (\<exists>u. uuid_UUID int16 (str_lower s) ver = Inr u)"
    by (simp add: validate_uuid_string_result split: sum.splits)
  show "(validate_uuid_string int16 s ver = Inr False) =
       (\<exists>msg. uuid_UUID int16 (str_lower s) ver = Inl (ValueError msg))"
    using uuid_UUID_raises_ValueError [of int16 "str_lower s" ver]
    by (auto simp: validate_uuid_string_result split: sum.splits)
  show "validate_uuid_string int16 ''not-a-uuid'' (Some 4) = Inr False"
    by (rule validate_not_a_uuid)
  show "str_lower ''ABCDEFGHIJKLMNOPQRSTUVWXYZ'' = ''abcdefghijklmnopqrstuvwxyz''"
    by (rule str_lower_upper_alphabet)
  show "length (str_lower s) = length s"
    by (rule str_lower_length)
  show "uuid_UUID int16 ''URN:UUID:123E4567-E89B-12D3-A456-426614174000'' (Some 4)
       = Inl (ValueError ''badly formed hexadecimal UUID string'')"
    by (rule uuid_UUID_upper_case_urn)
next
  assume "int16_reads_hex int16 \<and> 0 \<le> r \<and> r < 2 ^ 128"
  then show "validate_uuid_string int16 (uuid_str (uuid4 r)) (Some 4) = Inr True"
    by (intro validate_fresh_uuid4) simp_all
next
  fix i
  assume i: "i < length s" and "s ! i \<notin> set ''ABCDEFGHIJKLMNOPQRSTUVWXYZ''"
  then have "char_lower (s ! i) = s ! i" by (intro char_lower_other)
  with i show "str_lower s ! i = s ! i" by (simp only: str_lower_nth)
next
  fix i k :: nat
  assume i: "i < length s" and k: "k < 26" and e: "s ! i = ''ABCDEFGHIJKLMNOPQRSTUVWXYZ'' ! k"
  from k have "char_lower (''ABCDEFGHIJKLMNOPQRSTUVWXYZ'' ! k) = ''abcdefghijklmnopqrstuvwxyz'' ! k"
    by (rule char_lower_upper_nth)
  with i e show "str_lower s ! i = ''abcdefghijklmnopqrstuvwxyz'' ! k" by (simp only: str_lower_nth)
next
  assume "str_lower s = str_lower t"
  then show "validate_uuid_string int16 s ver = validate_uuid_string int16 t ver"
    by (rule validate_uuid_string_case_insensitive)
next
  assume "int16_reads_hex int16"
  then show "validate_uuid_string int16 ''URN:UUID:123E4567-E89B-12D3-A456-426614174000'' (Some 4)
          = Inr True"
    by (rule validate_upper_case_urn)
qed

text \<open>
  C10. With version 4 the validator returns \<open>True\<close> for every string of the form
  8-4-4-4-12 of hexadecimal digits, whatever digits stand where the version and the variant
  are written: the constructor does not compare the version, it returns the number the 32
  digits denote with the variant bits set to RFC 4122 and the version bits set to 4.
\<close>

theorem validate_uuid_string_any_version_bits:
  assumes "int16_reads_hex int16" and "canonical_uuid_text s"
  shows "validate_uuid_string int16 s (Some 4) = Inr True
       \<and> (\<exists>v. plain_hex (filter (\<lambda>c. c \<noteq> CHR ''-'') (str_lower s)) = Some v
            \<and> uuid_UUID int16 (str_lower s) (Some 4) = Inr (uuid_set_version v 4)
            \<and> UUID_version (uuid_set_version v 4) = 4)"
proof -
  from validate_uuid_string_canonical [OF assms] obtain v where
    v: "plain_hex (filter (\<lambda>c. c \<noteq> CHR ''-'') (str_lower s)) = Some v"
      "uuid_UUID int16 (str_lower s) (Some 4) = Inr (uuid_set_version v 4)"
      "validate_uuid_string int16 s (Some 4) = Inr True"
    by blast
  have "UUID_version (uuid_set_version v 4) = 4" by (rule UUID_version_set) simp_all
  with v show ?thesis by blast
qed

text \<open>
  The theorem where \<open>int(text, 16)\<close> reads hexadecimal digits and refuses anything else,
  at the random number \<open>0x123e4567e89b12d3a456426614174000\<close>: \<open>uuid4\<close> makes of it the
  UUID \<open>123e4567-e89b-42d3-a456-426614174000\<close>, which is valid, and \<open>not-a-uuid\<close> is not.
  And at the text \<open>URN:UUID:123E4567-E89B-12D3-A456-426614174000\<close> in capital letters:
  the constructor refuses it, its lower-casing is
  \<open>urn:uuid:123e4567-e89b-12d3-a456-426614174000\<close>, of the same length, with \<open>u\<close> for
  the \<open>U\<close> at position 0 and the colon at position 3 kept, and the validator gives it the
  verdict of the lower-case text, \<open>True\<close>.
\<close>

theorem validate_uuid_string_witness:
  "int16_reads_hex (\<lambda>s. case plain_hex s of
       None \<Rightarrow> Inl ''invalid literal for int() with base 16'' | Some v \<Rightarrow> Inr v)
   \<and> (0::int) \<le> 0x123e4567e89b12d3a456426614174000
   \<and> (0x123e4567e89b12d3a456426614174000::int) < 2 ^ 128
   \<and> uuid_str (uuid4 0x123e4567e89b12d3a456426614174000) = ''123e4567-e89b-42d3-a456-426614174000''
   \<and> validate_uuid_string (\<lambda>s. case plain_hex s of
         None \<Rightarrow> Inl ''invalid literal for int() with base 16'' | Some v \<Rightarrow> Inr v)
       ''123e4567-e89b-42d3-a456-426614174000'' (Some 4) = Inr True
   \<and> validate_uuid_string (\<lambda>s. case plain_hex s of
         None \<Rightarrow> Inl ''invalid literal for int() with base 16'' | Some v \<Rightarrow> Inr v)
       ''not-a-uuid'' (Some 4) = Inr False
   \<and> uuid_UUID (\<lambda>s. case plain_hex s of
         None \<Rightarrow> Inl ''invalid literal for int() with base 16'' | Some v \<Rightarrow> Inr v)
       ''URN:UUID:123E4567-E89B-12D3-A456-426614174000'' (Some 4)
       = Inl (ValueError ''badly formed hexadecimal UUID string'')
   \<and> validate_uuid_string (\<lambda>s. case plain_hex s of
         None \<Rightarrow> Inl ''invalid literal for int() with base 16'' | Some v \<Rightarrow> Inr v)
       ''URN:UUID:123E4567-E89B-12D3-A456-426614174000'' (Some 4) = Inr True
   \<and> str_lower ''URN:UUID:123E4567-E89B-12D3-A456-426614174000''
       = ''urn:uuid:123e4567-e89b-12d3-a456-426614174000''
   \<and> validate_uuid_string (\<lambda>s. case plain_hex s of
         None \<Rightarrow> Inl ''invalid literal for int() with base 16'' | Some v \<Rightarrow> Inr v)
       ''URN:UUID:123E4567-E89B-12D3-A456-426614174000'' (Some 4)
       = validate_uuid_string (\<lambda>s. case plain_hex s of
         None \<Rightarrow> Inl ''invalid literal for int() with base 16'' | Some v \<Rightarrow> Inr v)
       ''urn:uuid:123e4567-e89b-12d3-a456-426614174000'' (Some 4)
   \<and> length (str_lower ''URN:UUID:123E4567-E89B-12D3-A456-426614174000'') = 45
   \<and> str_lower ''URN:UUID:123E4567-E89B-12D3-A456-426614174000'' ! 0 = CHR ''u''
   \<and> str_lower ''URN:UUID:123E4567-E89B-12D3-A456-426614174000'' ! 3 = CHR '':''"
proof -
  let ?I = "\<lambda>s. case plain_hex s of
       None \<Rightarrow> Inl ''invalid literal for int() with base 16'' | Some v \<Rightarrow> Inr v"
  let ?r = "0x123e4567e89b12d3a456426614174000 :: int"
  let ?U = "''URN:UUID:123E4567-E89B-12D3-A456-426614174000''"
  let ?L = "''urn:uuid:123e4567-e89b-12d3-a456-426614174000''"
  note t = validate_uuid_string_total
  note tU = validate_uuid_string_total [of ?I ?U "Some 4" _ ?L]
  have i: "int16_reads_hex ?I" by (simp add: int16_reads_hex_def)
  have r0: "0 \<le> ?r" by simp
  have r1: "?r < 2 ^ 128" by simp
  have u: "uuid4 ?r = 0x123e4567e89b42d3a456426614174000"
    by (simp add: uuid4_def uuid_set_version_def)
  have h: "hex_digits 0x123e4567e89b42d3a456426614174000 = ''123e4567e89b42d3a456426614174000''"
    by (simp add: hex_digits_small hex_digits_large hex_char_def)
  have f: "format_032x 0x123e4567e89b42d3a456426614174000 = ''123e4567e89b42d3a456426614174000''"
    by (simp add: format_032x_def Let_def h)
  have s: "uuid_str (uuid4 ?r) = ''123e4567-e89b-42d3-a456-426614174000''"
    unfolding u by (simp add: uuid_str_def f)
  have "validate_uuid_string ?I (uuid_str (uuid4 ?r)) (Some 4) = Inr True"
    using i r0 r1
    by (intro t [THEN conjunct2, THEN conjunct2, THEN conjunct2, THEN conjunct2, THEN conjunct1,
          THEN mp] conjI)
  then have v: "validate_uuid_string ?I ''123e4567-e89b-42d3-a456-426614174000'' (Some 4) = Inr True"
    by (simp only: s)
  have n: "validate_uuid_string ?I ''not-a-uuid'' (Some 4) = Inr False"
    by (rule t [THEN conjunct2, THEN conjunct2, THEN conjunct2, THEN conjunct1])
  have c: "uuid_UUID ?I ?U (Some 4) = Inl (ValueError ''badly formed hexadecimal UUID string'')"
    by (rule t [THEN conjunct2, THEN conjunct2, THEN conjunct2, THEN conjunct2, THEN conjunct2,
          THEN conjunct2, THEN conjunct2, THEN conjunct2, THEN conjunct1])
  have a: "validate_uuid_string ?I ?U (Some 4) = Inr True"
    using i
    by (rule t [THEN conjunct2, THEN conjunct2, THEN conjunct2, THEN conjunct2, THEN conjunct2,
          THEN conjunct2, THEN conjunct2, THEN conjunct2, THEN conjunct2, THEN mp])
  have l: "str_lower ?U = ?L" by (simp add: str_lower_def char_lower_def)
  have ll: "str_lower ?L = ?L" by (simp add: str_lower_def char_lower_def)
  have lUL: "str_lower ?U = str_lower ?L" by (simp only: l ll)
  have e: "validate_uuid_string ?I ?U (Some 4) = validate_uuid_string ?I ?L (Some 4)"
    using lUL
    by (rule tU [THEN conjunct2, THEN conjunct2, THEN conjunct2, THEN conjunct2, THEN conjunct2,
          THEN conjunct2, THEN conjunct2, THEN conjunct1, THEN mp])
  have asc: "\<forall>c \<in> set ?U. of_char c < (128::nat)" by simp
  note p = tU [THEN conjunct2, THEN conjunct2, THEN conjunct2, THEN conjunct2, THEN conjunct2,
          THEN conjunct2, THEN conjunct1, THEN mp, OF asc]
  have len: "length ?U = 45" by simp
  have i0: "0 < length ?U" and i3: "3 < length ?U" by (simp_all only: len)
  have "length (str_lower ?U) = length ?U" by (rule p [THEN conjunct1])
  then have p1: "length (str_lower ?U) = 45" by (simp only: len)
  have k: "(20::nat) < 26" by simp
  have u0: "?U ! 0 = ''ABCDEFGHIJKLMNOPQRSTUVWXYZ'' ! 20" by simp
  have "str_lower ?U ! 0 = ''abcdefghijklmnopqrstuvwxyz'' ! 20"
    by (rule p [THEN conjunct2, THEN spec, THEN mp, OF i0, THEN conjunct2, THEN spec, THEN mp,
          OF k, THEN mp, OF u0])
  then have p2: "str_lower ?U ! 0 = CHR ''u''" by simp
  have u3: "?U ! 3 \<notin> set ''ABCDEFGHIJKLMNOPQRSTUVWXYZ''" by simp
  have "str_lower ?U ! 3 = ?U ! 3"
    by (rule p [THEN conjunct2, THEN spec, THEN mp, OF i3, THEN conjunct1, THEN mp, OF u3])
  then have p3: "str_lower ?U ! 3 = CHR '':''" by simp
  from i r0 r1 s v n c a l e p1 p2 p3 show ?thesis by (intro conjI)
qed

text \<open>
  The theorem at the nil UUID, whose version and variant digits are 0: it is valid, and
  the constructor returns the UUID \<open>00000000-0000-4000-8000-000000000000\<close>.
\<close>

theorem validate_uuid_string_nil_witness:
  "int16_reads_hex (\<lambda>s. case plain_hex s of
       None \<Rightarrow> Inl ''invalid literal for int() with base 16'' | Some v \<Rightarrow> Inr v)
   \<and> canonical_uuid_text ''00000000-0000-0000-0000-000000000000''
   \<and> validate_uuid_string (\<lambda>s. case plain_hex s of
         None \<Rightarrow> Inl ''invalid literal for int() with base 16'' | Some v \<Rightarrow> Inr v)
       ''00000000-0000-0000-0000-000000000000'' (Some 4) = Inr True
   \<and> uuid_UUID (\<lambda>s. case plain_hex s of
         None \<Rightarrow> Inl ''invalid literal for int() with base 16'' | Some v \<Rightarrow> Inr v)
       ''00000000-0000-0000-0000-000000000000'' (Some 4) = Inr 0x40008000000000000000
   \<and> uuid_str 0x40008000000000000000 = ''00000000-0000-4000-8000-000000000000''"
proof -
  let ?I = "\<lambda>s. case plain_hex s of
       None \<Rightarrow> Inl ''invalid literal for int() with base 16'' | Some v \<Rightarrow> Inr v"
  let ?nil = "''00000000-0000-0000-0000-000000000000''"
  have i: "int16_reads_hex ?I" by (simp add: int16_reads_hex_def)
  have c: "canonical_uuid_text ?nil" by (simp add: canonical_uuid_text_def is_hex_def)
  have l: "str_lower ?nil = ?nil" by (simp add: str_lower_def char_lower_def)
  have p: "plain_hex (filter (\<lambda>c. c \<noteq> CHR ''-'') ?nil) = Some 0"
    by (simp add: plain_hex_def hex_digit_value_def)
  have s4: "uuid_set_version 0 4 = 0x40008000000000000000"
    by (simp add: uuid_set_version_def)
  from validate_uuid_string_any_version_bits [OF i c] have
    v: "validate_uuid_string ?I ?nil (Some 4) = Inr True"
    and e: "\<exists>v. plain_hex (filter (\<lambda>c. c \<noteq> CHR ''-'') (str_lower ?nil)) = Some v
            \<and> uuid_UUID ?I (str_lower ?nil) (Some 4) = Inr (uuid_set_version v 4)
            \<and> UUID_version (uuid_set_version v 4) = 4"
    by (rule conjunct1, rule conjunct2)
  from e obtain v where
    v': "plain_hex (filter (\<lambda>c. c \<noteq> CHR ''-'') (str_lower ?nil)) = Some v
         \<and> uuid_UUID ?I (str_lower ?nil) (Some 4) = Inr (uuid_set_version v 4)
         \<and> UUID_version (uuid_set_version v 4) = 4"
    by (elim exE) (rule that)
  from v' have "plain_hex (filter (\<lambda>c. c \<noteq> CHR ''-'') ?nil) = Some v" by (simp only: l)
  with p have v0: "v = 0" by simp
  from v' have "uuid_UUID ?I (str_lower ?nil) (Some 4) = Inr (uuid_set_version v 4)" by (elim conjE)
  then have u: "uuid_UUID ?I ?nil (Some 4) = Inr 0x40008000000000000000"
    by (simp only: l v0 s4)
  have h: "hex_digits 0x40008000000000000000 = ''40008000000000000000''"
    by (simp add: hex_digits_small hex_digits_large hex_char_def)
  have r: "replicate 12 (CHR ''0'') = ''000000000000''" by (simp add: eval_nat_numeral)
  have f: "format_032x 0x40008000000000000000 = ''00000000000040008000000000000000''"
    by (simp add: format_032x_def Let_def h r)
  have s: "uuid_str 0x40008000000000000000 = ''00000000-0000-4000-8000-000000000000''"
    by (simp add: uuid_str_def f)
  from i c v u s show ?thesis by (intro conjI)
qed

end
